theory Spec2Isabelle
  imports Main "HOL-Library.Sublist"
begin

section \<open>JavaScript values and strings\<close>

text \<open>
  A string is a \<^typ>\<open>string\<close> holding the UTF-8 bytes of the JavaScript string, so that a
  character outside ASCII is a sequence of two to four chars. The characters this module
  tests for (colon, comma, parentheses, backslash, double quote, digits, signs) are
  ASCII, and no byte of a longer sequence equals an ASCII char.

  The white space of \<^verbatim>\<open>String.prototype.trim\<close>, of \<^verbatim>\<open>parseInt\<close> and of the
  regular-expression class \<^verbatim>\<open>\s\<close> is the same set: tab, line feed, vertical tab, form
  feed, carriage return, space, U+00A0, U+1680, U+2000 to U+200A, U+2028, U+2029,
  U+202F, U+205F, U+3000 and U+FEFF. These are their encodings; none is the start or the
  end of another.
\<close>

definition whitespace :: "string list" where
  "whitespace =
     [[CHR 0x09], [CHR 0x0A], [CHR 0x0B], [CHR 0x0C], [CHR 0x0D], [CHR 0x20],
      [CHR 0xC2, CHR 0xA0],
      [CHR 0xE1, CHR 0x9A, CHR 0x80],
      [CHR 0xE2, CHR 0x80, CHR 0x80], [CHR 0xE2, CHR 0x80, CHR 0x81],
      [CHR 0xE2, CHR 0x80, CHR 0x82], [CHR 0xE2, CHR 0x80, CHR 0x83],
      [CHR 0xE2, CHR 0x80, CHR 0x84], [CHR 0xE2, CHR 0x80, CHR 0x85],
      [CHR 0xE2, CHR 0x80, CHR 0x86], [CHR 0xE2, CHR 0x80, CHR 0x87],
      [CHR 0xE2, CHR 0x80, CHR 0x88], [CHR 0xE2, CHR 0x80, CHR 0x89],
      [CHR 0xE2, CHR 0x80, CHR 0x8A],
      [CHR 0xE2, CHR 0x80, CHR 0xA8], [CHR 0xE2, CHR 0x80, CHR 0xA9],
      [CHR 0xE2, CHR 0x80, CHR 0xAF],
      [CHR 0xE2, CHR 0x81, CHR 0x9F],
      [CHR 0xE3, CHR 0x80, CHR 0x80],
      [CHR 0xEF, CHR 0xBB, CHR 0xBF]]"

text \<open>The string without the sequences of \<open>ws\<close> that it starts with.\<close>

function stripStart :: "string list \<Rightarrow> string \<Rightarrow> string" where
  "stripStart ws s =
     (case find (\<lambda>w. w \<noteq> [] \<and> prefix w s) ws of
        None \<Rightarrow> s
      | Some w \<Rightarrow> stripStart ws (drop (length w) s))"
  by pat_completeness auto
termination
  by (relation "measure (\<lambda>(ws, s). length s)") (auto simp: find_Some_iff prefix_def)

definition trimStart :: "string \<Rightarrow> string" where
  "trimStart s = stripStart whitespace s"

definition trimEnd :: "string \<Rightarrow> string" where
  "trimEnd s = rev (stripStart (map rev whitespace) (rev s))"

definition trim :: "string \<Rightarrow> string" where
  "trim s = trimEnd (trimStart s)"

text \<open>Whether \<open>w\<close> occurs in \<open>s\<close>, and whether \<open>s\<close> has a white-space character.\<close>

definition occurs :: "string \<Rightarrow> string \<Rightarrow> bool" where
  "occurs w s = list_ex (\<lambda>i. prefix w (drop i s)) [0..<Suc (length s)]"

definition hasWhitespace :: "string \<Rightarrow> bool" where
  "hasWhitespace s = list_ex (\<lambda>w. occurs w s) whitespace"

definition isDigit :: "char \<Rightarrow> bool" where
  "isDigit c = (c \<in> set ''0123456789'')"

text \<open>
  \<^verbatim>\<open>s.split(sep)\<close> for a one-character separator: every occurrence of the separator
  ends a part, so a string without it is a single part and the empty string gives
  one empty part.
\<close>

fun split_acc :: "char \<Rightarrow> string \<Rightarrow> string \<Rightarrow> string list" where
  "split_acc sep acc [] = [rev acc]"
| "split_acc sep acc (c # cs) =
     (if c = sep then rev acc # split_acc sep [] cs else split_acc sep (c # acc) cs)"

definition js_split :: "char \<Rightarrow> string \<Rightarrow> string list" where
  "js_split sep s = split_acc sep [] s"

text \<open>\<^verbatim>\<open>s.split(sep, limit)\<close>: the parts are computed as above and cut after \<open>limit\<close>.\<close>

definition split_limit :: "char \<Rightarrow> nat \<Rightarrow> string \<Rightarrow> string list" where
  "split_limit sep limit s = take limit (js_split sep s)"

fun intercalate :: "string \<Rightarrow> string list \<Rightarrow> string" where
  "intercalate sep [] = []"
| "intercalate sep [x] = x"
| "intercalate sep (x # y # ys) = x @ sep @ intercalate sep (y # ys)"

subsection \<open>Numbers\<close>

text \<open>
  The numbers that \<^verbatim>\<open>parseInt\<close> returns: not-a-number, an integer that a double
  represents, the negative zero, and the two infinities.
\<close>

datatype jsnumber = NaN | Num int | NegZero | PosInfinity | NegInfinity

definition digitsValue :: "string \<Rightarrow> int" where
  "digitsValue ds = foldl (\<lambda>a c. 10 * a + (of_char c - 48)) 0 ds"

text \<open>
  The double nearest to a natural number, here a non-negative \<^typ>\<open>int\<close>. A double has
  53 significant bits:
  \<open>excessBits n\<close> is the number of low bits of \<open>n\<close> beyond them, which are rounded away,
  a tie going to the even neighbour; from \<open>2^1024\<close> on the result is infinite (\<open>None\<close>).
\<close>

function excessBits :: "int \<Rightarrow> nat" where
  "excessBits n = (if n < 2 ^ 53 then 0 else Suc (excessBits (n div 2)))"
  by pat_completeness auto
termination
  by (relation "measure nat") auto

definition roundDouble :: "int \<Rightarrow> int option" where
  "roundDouble n =
     (let e = excessBits n;
          q = n div 2 ^ e;
          r = n mod 2 ^ e;
          q' = (if 2 ^ e < 2 * r \<or> (2 * r = 2 ^ e \<and> odd q) then q + 1 else q);
          m = q' * 2 ^ e
      in if 2 ^ 1024 \<le> m then None else Some m)"

definition toNumber :: "bool \<Rightarrow> int \<Rightarrow> jsnumber" where
  "toNumber negative n =
     (case roundDouble n of
        None \<Rightarrow> if negative then NegInfinity else PosInfinity
      | Some m \<Rightarrow>
          if negative then (if m = 0 then NegZero else Num (- m)) else Num m)"

text \<open>
  \<^verbatim>\<open>parseInt(s, 10)\<close>: leading white space is skipped, one sign is read, then the longest
  run of decimal digits; whatever follows is ignored, and no digit at all gives \<open>NaN\<close>.
  The value of the digits is rounded to the nearest double, with the sign of the string
  (the language lets an implementation ignore the digits after the twentieth; the
  engines round the whole number).
\<close>

definition parseInt :: "string \<Rightarrow> jsnumber" where
  "parseInt s =
     (let t = trimStart s;
          negative = (t \<noteq> [] \<and> hd t = CHR ''-'');
          u = (if t \<noteq> [] \<and> (hd t = CHR ''-'' \<or> hd t = CHR ''+'') then tl t else t);
          ds = takeWhile isDigit u
      in if ds = [] then NaN else toNumber negative (digitsValue ds))"

subsection \<open>The values of a data row\<close>

record EventTag =
  tag_key :: string
  tag_value :: string

text \<open>
  The values a data row holds, as decoded from JSON. This module only converts them to
  strings and tests their truthiness, so a number is either a zero, not-a-number, or
  any other number, given by the string that \<^verbatim>\<open>String\<close> converts it to (such as
  \<^verbatim>\<open>42\<close>, \<^verbatim>\<open>-1.5\<close> or \<^verbatim>\<open>1e+21\<close>). \<open>JTags\<close> is an array of tags, each an object with the
  strings \<^verbatim>\<open>key\<close> and \<^verbatim>\<open>value\<close>, as the \<^verbatim>\<open>tags\<close> attribute of an event is; \<open>JObject\<close> is
  any other array or object, given by the string it converts to, which is \<open>None\<close> when
  the conversion throws (an object whose own \<^verbatim>\<open>toString\<close> attribute is not a function).
\<close>

datatype jsvalue =
    JUndefined
  | JNull
  | JBool bool
  | JZero
  | JNaN
  | JNumber string
  | JStr string
  | JTags "EventTag list"
  | JObject "string option"

datatype error = TypeError

text \<open>\<^verbatim>\<open>String(value)\<close>.\<close>

fun String :: "jsvalue \<Rightarrow> error + string" where
  "String JUndefined = Inr ''undefined''"
| "String JNull = Inr ''null''"
| "String (JBool b) = Inr (if b then ''true'' else ''false'')"
| "String JZero = Inr ''0''"
| "String JNaN = Inr ''NaN''"
| "String (JNumber s) = Inr s"
| "String (JStr s) = Inr s"
| "String (JTags ts) = Inr (intercalate '','' (map (\<lambda>_. ''[object Object]'') ts))"
| "String (JObject None) = Inl TypeError"
| "String (JObject (Some s)) = Inr s"

text \<open>Truthiness, as the operator \<^verbatim>\<open>||\<close> tests it.\<close>

fun truthy :: "jsvalue \<Rightarrow> bool" where
  "truthy JUndefined = False"
| "truthy JNull = False"
| "truthy (JBool b) = b"
| "truthy JZero = False"
| "truthy JNaN = False"
| "truthy (JNumber s) = True"
| "truthy (JStr s) = (s \<noteq> [])"
| "truthy (JTags ts) = True"
| "truthy (JObject s) = True"

definition js_or :: "jsvalue \<Rightarrow> jsvalue \<Rightarrow> jsvalue" where
  "js_or a b = (if truthy a then a else b)"

subsection \<open>Objects as dictionaries\<close>

text \<open>
  An object created by \<^verbatim>\<open>{}\<close> and used as a dictionary with string keys is an
  association list with distinct keys, in the order of their creation. Assignment to
  an existing key keeps its place. Assignment of a string
  or of an array to the key \<^verbatim>\<open>__proto__\<close> reaches the setter that \<^verbatim>\<open>Object.prototype\<close>
  defines: no key is created.
\<close>

type_synonym 'v jsobject = "(string \<times> 'v) list"

fun assign :: "'v jsobject \<Rightarrow> string \<Rightarrow> 'v \<Rightarrow> 'v jsobject" where
  "assign [] k v = [(k, v)]"
| "assign ((k', v') # kvs) k v =
     (if k' = k then (k, v) # kvs else (k', v') # assign kvs k v)"

definition obj_set :: "'v jsobject \<Rightarrow> string \<Rightarrow> 'v \<Rightarrow> 'v jsobject" where
  "obj_set obj k v = (if k = ''__proto__'' then obj else assign obj k v)"

definition obj_get :: "'v jsobject \<Rightarrow> string \<Rightarrow> 'v option" where
  "obj_get obj k = map_of obj k"

definition obj_delete :: "'v jsobject \<Rightarrow> string \<Rightarrow> 'v jsobject" where
  "obj_delete obj k = filter (\<lambda>kv. fst kv \<noteq> k) obj"

text \<open>
  The order in which \<^verbatim>\<open>for (const key in obj)\<close> and \<^verbatim>\<open>Object.assign\<close> visit the keys:
  first the array indices (the decimal notations, without a leading zero, of the
  numbers below \<open>2^32 - 1\<close>) in ascending numeric order, then the other keys in the order
  of their creation.
\<close>

definition isArrayIndex :: "string \<Rightarrow> bool" where
  "isArrayIndex k =
     (k \<noteq> [] \<and> list_all isDigit k \<and> (hd k \<noteq> CHR ''0'' \<or> k = ''0'') \<and>
      digitsValue k < 4294967295)"

definition forIn :: "'v jsobject \<Rightarrow> 'v jsobject" where
  "forIn obj =
     sort_key (\<lambda>kv. digitsValue (fst kv)) (filter (\<lambda>kv. isArrayIndex (fst kv)) obj) @
     filter (\<lambda>kv. \<not> isArrayIndex (fst kv)) obj"

text \<open>\<^verbatim>\<open>Object.assign(target, source)\<close>: the source's entries are assigned in that order.\<close>

definition obj_assign :: "'v jsobject \<Rightarrow> 'v jsobject \<Rightarrow> 'v jsobject" where
  "obj_assign target source =
     foldl (\<lambda>obj kv. obj_set obj (fst kv) (snd kv)) target (forIn source)"

section \<open>Fields, columns and event views\<close>

text \<open>
  A \<^verbatim>\<open>Field\<close> is the string of a column with an optional display width; a \<^verbatim>\<open>Column\<close>
  is its decoded form, tagged \<^verbatim>\<open>kind: 'field'\<close> or \<^verbatim>\<open>kind: 'function'\<close>. The array
  \<^verbatim>\<open>column.function\<close> holds the function's name at index 0 and its arguments from
  index 1 on, so \<^verbatim>\<open>function[1]\<close> is the first argument, or undefined.
\<close>

record Field =
  field :: string
  width :: "int option"

datatype Column = FieldCol string | FunctionCol string "string list"

fun isFunction :: "Column \<Rightarrow> bool" where
  "isFunction (FunctionCol f args) = True"
| "isFunction (FieldCol n) = False"

text \<open>
  Modelled from the spec: \<^verbatim>\<open>explodeFieldString\<close> of \<^verbatim>\<open>app/utils/discover/fields\<close> is not
  among the sources. A field is either a bare attribute name or an aggregate-function
  application over zero or more attribute names, written \<^verbatim>\<open>name(arg0,arg1,...)\<close> as in
  \<^verbatim>\<open>count()\<close> and \<^verbatim>\<open>count(id)\<close>: a string with a non-empty name before its first
  opening parenthesis and a closing parenthesis at its end decodes to a function, the
  text between the two split at the commas; every other string is a bare field.
\<close>

definition explodeFieldString :: "string \<Rightarrow> Column" where
  "explodeFieldString f =
     (let name = takeWhile (\<lambda>c. c \<noteq> CHR ''('') f;
          rest = dropWhile (\<lambda>c. c \<noteq> CHR ''('') f
      in if name \<noteq> [] \<and> 2 \<le> length rest \<and> last rest = CHR '')''
         then FunctionCol name
                (let inner = butlast (tl rest)
                 in if inner = [] then [] else js_split CHR '','' inner)
         else FieldCol f)"

text \<open>
  Modelled from the spec: \<^verbatim>\<open>generateFieldAsString\<close>, the encoder that the view's
  update uses, is not among the sources; it is the inverse notation.
\<close>

fun generateFieldAsString :: "Column \<Rightarrow> string" where
  "generateFieldAsString (FieldCol n) = n"
| "generateFieldAsString (FunctionCol f args) = f @ ''('' @ intercalate '','' args @ '')''"

datatype ParameterKind = ColumnParameter | ValueParameter

record Aggregation =
  parameters :: "ParameterKind list"

text \<open>
  The attributes of an event view that this module reads or assigns: the fields, the
  filter string and the two scope lists. The project list holds what \<^verbatim>\<open>parseInt\<close>
  returns.
\<close>

record EventView =
  ev_fields :: "Field list"
  query :: string
  project :: "jsnumber list"
  environment :: "string list"

text \<open>
  What the module imports and the sources do not contain is a parameter of the model:
  the schema table \<^verbatim>\<open>AGGREGATIONS\<close>, the values of \<^verbatim>\<open>URL_PARAM\<close> (the reserved scoping
  parameter names), the alias that \<^verbatim>\<open>getAggregateAlias\<close> gives an aggregate, the
  tokenizer and the stringifier of filter strings, \<^verbatim>\<open>getUtcDateString\<close> and
  \<^verbatim>\<open>disableMacros\<close>.
\<close>

record externals =
  AGGREGATIONS :: "string \<Rightarrow> Aggregation option"
  URL_PARAM :: "string list"
  aggregateAlias :: "string \<Rightarrow> string list \<Rightarrow> string"
  tokenizeSearch :: "string \<Rightarrow> (string list) jsobject"
  stringifyQueryObject :: "(string list) jsobject \<Rightarrow> string"
  getUtcDateString :: "string \<Rightarrow> string"
  disableMacros :: "jsvalue \<Rightarrow> jsvalue"

text \<open>
  Modelled from the spec: \<^verbatim>\<open>getAggregateAlias\<close> is not among the sources. It computes
  the externally visible key of a field, the key of its value in a data row: a bare
  field is its own key, and the alias of an aggregate is left to the parameter.
\<close>

definition getAggregateAlias :: "externals \<Rightarrow> string \<Rightarrow> string" where
  "getAggregateAlias X f =
     (case explodeFieldString f of
        FieldCol n \<Rightarrow> f
      | FunctionCol name args \<Rightarrow> aggregateAlias X name args)"

text \<open>
  Event views are objects: the code assigns to their attributes, and two variables may
  hold the same view. The store maps an address (an index) to the view there; the
  arrays of a view are values, since the code never updates an array in place (it
  builds \<^verbatim>\<open>[...old, x]\<close>).
\<close>

type_synonym store = "EventView list"

definition alloc :: "store \<Rightarrow> EventView \<Rightarrow> store \<times> nat" where
  "alloc h v = (h @ [v], length h)"

text \<open>
  Modelled from the spec: the class \<^verbatim>\<open>EventView\<close> is not among the sources. Its methods
  \<^verbatim>\<open>clone\<close>, \<^verbatim>\<open>withUpdatedColumn\<close> and \<^verbatim>\<open>withDeletedColumn\<close> never mutate the view in
  place: each produces a new view. The updated column replaces the field at its index
  by the column's string with no explicit width; the deleted column is removed from
  the list. An index outside the list leaves the fields as they are.
\<close>

definition clone :: "store \<Rightarrow> nat \<Rightarrow> store \<times> nat" where
  "clone h a = alloc h (h ! a)"

definition withUpdatedColumn :: "store \<Rightarrow> nat \<Rightarrow> nat \<Rightarrow> Column \<Rightarrow> store \<times> nat" where
  "withUpdatedColumn h a columnIndex updatedColumn =
     alloc h ((h ! a)\<lparr>ev_fields :=
       (ev_fields (h ! a))[columnIndex :=
          \<lparr>field = generateFieldAsString updatedColumn, width = None\<rparr>]\<rparr>)"

definition deleteAt :: "nat \<Rightarrow> 'a list \<Rightarrow> 'a list" where
  "deleteAt index xs = take index xs @ drop (Suc index) xs"

definition withDeletedColumn :: "store \<Rightarrow> nat \<Rightarrow> nat \<Rightarrow> store \<times> nat" where
  "withDeletedColumn h a columnIndex =
     alloc h ((h ! a)\<lparr>ev_fields := deleteAt columnIndex (ev_fields (h ! a))\<rparr>)"

section \<open>The user tag\<close>

text \<open>
  \<^verbatim>\<open>normalizeUserTag\<close>: \<^verbatim>\<open>value.split(':', 2)\<close> keeps the first two parts of the value.
\<close>

definition normalizeUserTag :: "string \<Rightarrow> string \<Rightarrow> string \<times> string" where
  "normalizeUserTag key val =
     (let parts = split_limit CHR '':'' 2 val
      in if length parts \<noteq> 2 then (key, parts ! 0)
         else (intercalate ''.'' [key, parts ! 0], parts ! 1))"

section \<open>Aggregates and their un-aggregated form\<close>

definition TRANSFORM_AGGREGATES :: "(string \<times> string) list" where
  "TRANSFORM_AGGREGATES =
     [(''last_seen'', ''timestamp''),
      (''latest_event'', ''''),
      (''apdex'', ''''),
      (''impact'', ''''),
      (''user_misery'', ''''),
      (''failure_rate'', '''')]"

text \<open>The test \<^verbatim>\<open>/^p\d+$/\<close>: the letter p, then one digit or more, and nothing else.\<close>

definition isPercentile :: "string \<Rightarrow> bool" where
  "isPercentile fieldName =
     (case fieldName of
        [] \<Rightarrow> False
      | c # ds \<Rightarrow> c = CHR ''p'' \<and> ds \<noteq> [] \<and> list_all isDigit ds)"

text \<open>
  \<^verbatim>\<open>TRANSFORM_AGGREGATES[fieldName] || \<close> the empty string: a missing or empty entry
  gives the empty string. The lookup is that of the table's own keys, which is the
  code's for every name but the members that \<^verbatim>\<open>Object.prototype\<close> defines
  (\<^verbatim>\<open>constructor\<close>, \<^verbatim>\<open>valueOf\<close>, \<^verbatim>\<open>toString\<close>, \<^verbatim>\<open>__proto__\<close> and the like): for such a
  name the code's lookup gives a function or an object, which a view's field, a string
  here, cannot hold, and the definition takes the branch of a missing entry.
\<close>

definition transformAggregate :: "string \<Rightarrow> string" where
  "transformAggregate fieldName =
     (if isPercentile fieldName then ''transaction.duration''
      else (case map_of TRANSFORM_AGGREGATES fieldName of
              None \<Rightarrow> ''''
            | Some s \<Rightarrow> s))"

definition isTransformAggregate :: "string \<Rightarrow> bool" where
  "isTransformAggregate fieldName = (transformAggregate fieldName \<noteq> '''')"

section \<open>getExpandedResults\<close>

text \<open>
  The state of the loop over \<^verbatim>\<open>fieldsToUpdate\<close>: the store, the variable \<^verbatim>\<open>nextView\<close>
  (an address), the set \<^verbatim>\<open>transformedFields\<close> and the array \<^verbatim>\<open>fieldsToDelete\<close>.
\<close>

record expandState =
  store_of :: store
  nextView :: nat
  transformedFields :: "string set"
  fieldsToDelete :: "nat list"

text \<open>\<^verbatim>\<open>exploded.function[1]\<close>: the first argument, undefined (\<open>None\<close>) when there is none.\<close>

fun functionArg :: "string list \<Rightarrow> string option" where
  "functionArg [] = None"
| "functionArg (a # as) = Some a"

text \<open>The indices of the aggregate fields of the view, in ascending order.\<close>

definition fieldsToUpdate :: "EventView \<Rightarrow> nat list" where
  "fieldsToUpdate v =
     filter (\<lambda>index. isFunction (explodeFieldString (field (ev_fields v ! index))))
       [0..<length (ev_fields v)]"

definition markDeleted :: "expandState \<Rightarrow> nat \<Rightarrow> expandState" where
  "markDeleted s indexToUpdate = s\<lparr>fieldsToDelete := fieldsToDelete s @ [indexToUpdate]\<rparr>"

definition replaceColumn :: "expandState \<Rightarrow> nat \<Rightarrow> string \<Rightarrow> expandState" where
  "replaceColumn s indexToUpdate name =
     (let (h, a) = withUpdatedColumn (store_of s) (nextView s) indexToUpdate (FieldCol name)
      in s\<lparr>store_of := h, nextView := a,
            transformedFields := insert name (transformedFields s)\<rparr>)"

text \<open>
  The body of the loop that replaces aggregated columns by their non-aggregated form,
  one call per index of \<^verbatim>\<open>fieldsToUpdate\<close>.
\<close>

definition updateField :: "externals \<Rightarrow> expandState \<Rightarrow> nat \<Rightarrow> expandState" where
  "updateField X s indexToUpdate =
     (let currentField = ev_fields (store_of s ! nextView s) ! indexToUpdate;
          exploded = explodeFieldString (field currentField);
          fieldNameAlias =
            (case exploded of
               FunctionCol f args \<Rightarrow> if isTransformAggregate f then f else ''''
             | FieldCol n \<Rightarrow> if n \<noteq> ''id'' then n else '''')
      in if isTransformAggregate fieldNameAlias then
           (let nextFieldName = transformAggregate fieldNameAlias
            in if nextFieldName = '''' \<or> nextFieldName \<in> transformedFields s
               then markDeleted s indexToUpdate
               else replaceColumn s indexToUpdate nextFieldName)
         else if (case exploded of
                    FieldCol n \<Rightarrow> n \<in> transformedFields s
                  | FunctionCol f args \<Rightarrow>
                      (case functionArg args of
                         None \<Rightarrow> False
                       | Some a \<Rightarrow> a \<in> transformedFields s))
         then markDeleted s indexToUpdate
         else (case exploded of
                 FieldCol n \<Rightarrow> s
               | FunctionCol f args \<Rightarrow>
                   (if f = ''count'' \<or> functionArg args = Some ''id''
                    then markDeleted s indexToUpdate
                    else (let params = (case AGGREGATIONS X f of
                                          None \<Rightarrow> []
                                        | Some aggregate \<Rightarrow> parameters aggregate)
                          in case functionArg args of
                               None \<Rightarrow> markDeleted s indexToUpdate
                             | Some a \<Rightarrow>
                                 if a = '''' \<or>
                                    (params \<noteq> [] \<and> list_all (\<lambda>p. p \<noteq> ColumnParameter) params)
                                 then markDeleted s indexToUpdate
                                 else replaceColumn s indexToUpdate a))))"

text \<open>The state before the loop: the clone, an empty set and an empty array.\<close>

definition cloneState :: "store \<Rightarrow> nat \<Rightarrow> expandState" where
  "cloneState h eventView =
     (let (h1, a1) = clone h eventView
      in \<lparr>store_of = h1, nextView = a1, transformedFields = {}, fieldsToDelete = []\<rparr>)"

text \<open>The Field Transformer: the clone, then the loop over the aggregate fields.\<close>

definition updateFields :: "externals \<Rightarrow> store \<Rightarrow> nat \<Rightarrow> expandState" where
  "updateFields X h eventView =
     foldl (updateField X) (cloneState h eventView) (fieldsToUpdate (h ! eventView))"

text \<open>The columns marked for deletion are deleted from the last mark to the first.\<close>

definition deleteFields :: "expandState \<Rightarrow> store \<times> nat" where
  "deleteFields s =
     foldl (\<lambda>(h, a) index. withDeletedColumn h a index) (store_of s, nextView s)
       (rev (fieldsToDelete s))"

section \<open>Conditions\<close>

text \<open>
  A data row is an object decoded from JSON: its own attributes and their values.
  \<^verbatim>\<open>row[col]\<close> is the value of the attribute, undefined when the row has none.
\<close>

type_synonym DataRow = "string \<Rightarrow> jsvalue option"

definition rowGet :: "DataRow \<Rightarrow> string \<Rightarrow> jsvalue" where
  "rowGet row col = (case row col of None \<Rightarrow> JUndefined | Some v \<Rightarrow> v)"

text \<open>
  \<^verbatim>\<open>dataRow.hasOwnProperty(dataKey)\<close>: the method is looked up on the row first. A row
  with an attribute named \<^verbatim>\<open>hasOwnProperty\<close> holds a JSON value there, which cannot be
  called, and the call throws; otherwise the method of \<^verbatim>\<open>Object.prototype\<close> answers.
\<close>

definition hasOwnProperty :: "DataRow \<Rightarrow> string \<Rightarrow> error + bool" where
  "hasOwnProperty dataRow key =
     (if dataRow ''hasOwnProperty'' \<noteq> None then Inl TypeError else Inr (dataRow key \<noteq> None))"

text \<open>The test of \<^verbatim>\<open>/[\s\(\)\\"]/g\<close>, a regular expression created at each use.\<close>

definition quoteTest :: "string \<Rightarrow> bool" where
  "quoteTest s =
     (hasWhitespace s \<or> list_ex (\<lambda>c. c \<in> set [CHR ''('', CHR '')'', CHR 0x5C, CHR 0x22]) s)"

definition shouldQuote :: "jsvalue \<Rightarrow> error + bool" where
  "shouldQuote v =
     (if v = JNull \<or> v = JUndefined then Inr False
      else (case String v of
              Inl e \<Rightarrow> Inl e
            | Inr s \<Rightarrow> Inr (quoteTest (trim s))))"

definition nextValue :: "jsvalue \<Rightarrow> error + string" where
  "nextValue v =
     (case shouldQuote v of
        Inl e \<Rightarrow> Inl e
      | Inr quote \<Rightarrow>
          if v = JNull \<or> v = JUndefined then Inr ''''
          else (case String v of
                  Inl e \<Rightarrow> Inl e
                | Inr s \<Rightarrow> Inr (if quote then s else trim s)))"

text \<open>
  The tags of the row, when \<^verbatim>\<open>dataRow.tags && Array.isArray(dataRow.tags)\<close> holds: an
  array under \<^verbatim>\<open>tags\<close> is the list of the tags of an event.
\<close>

definition rowTags :: "DataRow \<Rightarrow> EventTag list option" where
  "rowTags dataRow =
     (case dataRow ''tags'' of
        Some (JTags tags) \<Rightarrow> Some tags
      | _ \<Rightarrow> None)"

text \<open>
  The callback of \<^verbatim>\<open>generateAdditionalConditions\<close>, called on every field of the view,
  in two parts. The first is the \<^verbatim>\<open>switch\<close> that appends the row's attribute as a
  condition, given the string \<^verbatim>\<open>nextValue\<close>.
\<close>

definition attributeCondition ::
  "externals \<Rightarrow> string jsobject \<Rightarrow> string \<Rightarrow> string \<Rightarrow> string \<Rightarrow> string jsobject" where
  "attributeCondition X conditions columnField dataKey next =
     (if columnField = ''timestamp''
      then obj_set conditions columnField (getUtcDateString X next)
      else if columnField = ''user''
      then (let normalized = normalizeUserTag dataKey next
            in obj_set conditions (fst normalized) (snd normalized))
      else obj_set conditions columnField next)"

text \<open>The second is the check of the row's tags.\<close>

definition tagCondition ::
  "externals \<Rightarrow> DataRow \<Rightarrow> string jsobject \<Rightarrow> string \<Rightarrow> string \<Rightarrow> string jsobject" where
  "tagCondition X dataRow conditions columnField dataKey =
     (case rowTags dataRow of
        None \<Rightarrow> conditions
      | Some tags \<Rightarrow>
          (case find (\<lambda>item. tag_key item = dataKey) tags of
             None \<Rightarrow> conditions
           | Some tag \<Rightarrow>
               (let key = (if columnField \<in> set (URL_PARAM X)
                           then ''tags['' @ columnField @ '']''
                           else columnField);
                    tagValue = tag_value tag
                in if key = ''user''
                   then (let normalized = normalizeUserTag key tagValue
                         in obj_set (obj_delete conditions key)
                              (fst normalized) (snd normalized))
                   else obj_set conditions key tagValue)))"

text \<open>
  The callback: an aggregate field is skipped; for a bare field the call of
  \<^verbatim>\<open>hasOwnProperty\<close> or the conversion of the row's value may throw, and otherwise the
  two parts follow each other.
\<close>

definition addCondition ::
  "externals \<Rightarrow> DataRow \<Rightarrow> string jsobject \<Rightarrow> Field \<Rightarrow> error + string jsobject" where
  "addCondition X dataRow conditions fld =
     (case explodeFieldString (field fld) of
        FunctionCol f args \<Rightarrow> Inr conditions
      | FieldCol columnField \<Rightarrow>
          (let dataKey = getAggregateAlias X (field fld)
           in case hasOwnProperty dataRow dataKey of
                Inl e \<Rightarrow> Inl e
              | Inr own \<Rightarrow>
                  (case (if own
                         then (case nextValue (rowGet dataRow dataKey) of
                                 Inl e \<Rightarrow> Inl e
                               | Inr next \<Rightarrow>
                                   Inr (attributeCondition X conditions columnField dataKey next))
                         else Inr conditions) of
                     Inl e \<Rightarrow> Inl e
                   | Inr conditions1 \<Rightarrow>
                       Inr (tagCondition X dataRow conditions1 columnField dataKey))))"

text \<open>A loop whose body may throw: the first error ends it.\<close>

fun foldlE :: "('a \<Rightarrow> 'b \<Rightarrow> error + 'a) \<Rightarrow> 'a \<Rightarrow> 'b list \<Rightarrow> error + 'a" where
  "foldlE f a [] = Inr a"
| "foldlE f a (x # xs) = (case f a x of Inl e \<Rightarrow> Inl e | Inr a' \<Rightarrow> foldlE f a' xs)"

definition generateAdditionalConditions ::
  "externals \<Rightarrow> EventView \<Rightarrow> DataRow option \<Rightarrow> error + string jsobject" where
  "generateAdditionalConditions X eventView dataRow =
     (case dataRow of
        None \<Rightarrow> Inr []
      | Some row \<Rightarrow> foldlE (addCondition X row) [] (ev_fields eventView))"

text \<open>
  The body of the loop of \<^verbatim>\<open>generateExpandedConditions\<close> over the merged conditions. The
  values of the conditions are strings, so the test \<^verbatim>\<open>typeof value === 'string'\<close> holds.
\<close>

definition applyCondition ::
  "nat \<Rightarrow> store \<times> (string list) jsobject \<Rightarrow> string \<times> string \<Rightarrow>
   store \<times> (string list) jsobject" where
  "applyCondition eventView st kv =
     (let h = fst st; parsedQuery = snd st; key = fst kv; val = snd kv
      in if key = ''project.id''
         then (h[eventView := (h ! eventView)
                  \<lparr>project := project (h ! eventView) @ [parseInt val]\<rparr>], parsedQuery)
         else if key = ''environment''
         then (if val \<notin> set (environment (h ! eventView))
               then h[eventView := (h ! eventView)
                       \<lparr>environment := environment (h ! eventView) @ [val]\<rparr>]
               else h, parsedQuery)
         else if key = ''user''
         then (let normalized = normalizeUserTag key val
               in (h, obj_set parsedQuery (fst normalized) [snd normalized]))
         else (case explodeFieldString key of
                 FunctionCol f args \<Rightarrow> (h, parsedQuery)
               | FieldCol n \<Rightarrow> (h, obj_set parsedQuery key [val])))"

text \<open>
  \<^verbatim>\<open>Object.assign({}, additionalConditions, generateAdditionalConditions(...))\<close>: the
  arguments are evaluated first, so an error of the generator leaves nothing merged.
\<close>

definition mergedConditions ::
  "externals \<Rightarrow> EventView \<Rightarrow> string jsobject \<Rightarrow> DataRow option \<Rightarrow>
   error + string jsobject" where
  "mergedConditions X v additionalConditions dataRow =
     (case generateAdditionalConditions X v dataRow of
        Inl e \<Rightarrow> Inl e
      | Inr generated \<Rightarrow> Inr (obj_assign (obj_assign [] additionalConditions) generated))"

text \<open>
  \<^verbatim>\<open>generateExpandedConditions\<close> takes the store and the address of the view, and returns
  the store after the call with the filter string, or with the error thrown; the view is
  assigned to only after the conditions are merged.
\<close>

definition generateExpandedConditions ::
  "externals \<Rightarrow> store \<Rightarrow> nat \<Rightarrow> string jsobject \<Rightarrow> DataRow option \<Rightarrow>
   store \<times> (error + string)" where
  "generateExpandedConditions X h eventView additionalConditions dataRow =
     (let parsedQuery =
            filter (\<lambda>kv. \<not> isFunction (explodeFieldString (fst kv)))
              (tokenizeSearch X (query (h ! eventView)))
      in case mergedConditions X (h ! eventView) additionalConditions dataRow of
           Inl e \<Rightarrow> (h, Inl e)
         | Inr conditions \<Rightarrow>
             (let st = foldl (applyCondition eventView) (h, parsedQuery) (forIn conditions)
              in (fst st, Inr (stringifyQueryObject X (snd st)))))"

text \<open>
  \<^verbatim>\<open>getExpandedResults\<close> takes the store and the address of the view and returns the
  store after the call with the address of the view it returns, or with the error
  thrown.
\<close>

definition getExpandedResults ::
  "externals \<Rightarrow> store \<Rightarrow> nat \<Rightarrow> string jsobject \<Rightarrow> DataRow option \<Rightarrow>
   store \<times> (error + nat)" where
  "getExpandedResults X h eventView additionalConditions dataRow =
     (let (h2, a2) = deleteFields (updateFields X h eventView);
          (h3, r) = generateExpandedConditions X h2 a2 additionalConditions dataRow
      in case r of
           Inl e \<Rightarrow> (h3, Inl e)
         | Inr q \<Rightarrow> (h3[a2 := (h3 ! a2)\<lparr>query := q\<rparr>], Inr a2))"

section \<open>CSV export\<close>

text \<open>The cell of \<^verbatim>\<open>downloadAsCsv\<close> for one row and one heading.\<close>

definition csvCell :: "externals \<Rightarrow> DataRow \<Rightarrow> string \<Rightarrow> jsvalue" where
  "csvCell X row heading =
     (let col = getAggregateAlias X heading
      in if col = ''user''
         then disableMacros X
                (js_or (rowGet row ''user'')
                 (js_or (rowGet row ''user.name'')
                  (js_or (rowGet row ''user.email'')
                   (js_or (rowGet row ''user.username'')
                          (rowGet row ''user.ip'')))))
         else disableMacros X (rowGet row col))"

text \<open>
  The table that \<^verbatim>\<open>downloadAsCsv\<close> hands to the CSV serializer: the headings and one
  list of cells per row. The serialization and the download link are outside the model.
\<close>

definition downloadAsCsv ::
  "externals \<Rightarrow> DataRow list \<Rightarrow> string list \<Rightarrow> string list \<times> jsvalue list list" where
  "downloadAsCsv X tableData headings =
     (headings, map (\<lambda>row. map (csvCell X row) headings) tableData)"

section \<open>An instance of the parameters\<close>

text \<open>
  Modelled from the spec: \<^verbatim>\<open>tokenizeSearch\<close> and \<^verbatim>\<open>stringifyQueryObject\<close> of
  \<^verbatim>\<open>app/utils/tokenizeSearch\<close> are not among the sources. A filter string is a
  whitespace-tokenized sequence of \<^verbatim>\<open>key:value\<close> pairs; repeated keys become
  multi-valued lists, and a token that is no such pair is ignored. This instance covers
  filter strings without quoted values; it serves to evaluate the model at concrete
  inputs.
\<close>

definition obj_push :: "(string list) jsobject \<Rightarrow> string \<Rightarrow> string \<Rightarrow> (string list) jsobject" where
  "obj_push obj k v =
     obj_set obj k (case map_of obj k of None \<Rightarrow> [v] | Some vs \<Rightarrow> vs @ [v])"

definition sampleTokenizeSearch :: "string \<Rightarrow> (string list) jsobject" where
  "sampleTokenizeSearch q =
     foldl (\<lambda>obj token.
              let key = takeWhile (\<lambda>c. c \<noteq> CHR '':'') token;
                  rest = dropWhile (\<lambda>c. c \<noteq> CHR '':'') token
              in if rest = [] then obj else obj_push obj key (tl rest))
       [] (filter (\<lambda>token. token \<noteq> []) (js_split CHR '' '' q))"

definition sampleStringifyQueryObject :: "(string list) jsobject \<Rightarrow> string" where
  "sampleStringifyQueryObject obj =
     intercalate '' '' (concat (map (\<lambda>kv. map (\<lambda>v. fst kv @ '':'' @ v) (snd kv)) obj))"

text \<open>
  The other parameters of the instance: an empty schema table, the scoping parameters
  \<^verbatim>\<open>project\<close> and \<^verbatim>\<open>environment\<close>, the function's name as the alias of an aggregate, and
  the identity for the date format and for the macro sanitization.
\<close>

definition sampleExternals :: externals where
  "sampleExternals =
     \<lparr>AGGREGATIONS = (\<lambda>name. None),
      URL_PARAM = [''project'', ''environment''],
      aggregateAlias = (\<lambda>name args. name),
      tokenizeSearch = sampleTokenizeSearch,
      stringifyQueryObject = sampleStringifyQueryObject,
      getUtcDateString = (\<lambda>s. s),
      disableMacros = (\<lambda>v. v)\<rparr>"

text \<open>A view of the store given by its field strings, and a row given by its entries.\<close>

definition viewOf :: "string list \<Rightarrow> string \<Rightarrow> EventView" where
  "viewOf fs q =
     \<lparr>ev_fields = map (\<lambda>f. \<lparr>field = f, width = None\<rparr>) fs, query = q,
      project = [], environment = []\<rparr>"

definition rowOf :: "(string \<times> jsvalue) list \<Rightarrow> DataRow" where
  "rowOf entries = map_of entries"

text \<open>The view that the variable \<^verbatim>\<open>nextView\<close> holds, and the view that a call returns.\<close>

definition currentView :: "expandState \<Rightarrow> EventView" where
  "currentView s = store_of s ! nextView s"

definition expandedView ::
  "externals \<Rightarrow> store \<Rightarrow> nat \<Rightarrow> string jsobject \<Rightarrow> DataRow option \<Rightarrow> error + EventView" where
  "expandedView X h eventView additionalConditions dataRow =
     (case snd (getExpandedResults X h eventView additionalConditions dataRow) of
        Inl e \<Rightarrow> Inl e
      | Inr a \<Rightarrow> Inr (fst (getExpandedResults X h eventView additionalConditions dataRow) ! a))"

text \<open>What a step keeps: the views of the store, the other fields, the marks.\<close>

definition stepKeeps :: "expandState \<Rightarrow> expandState \<Rightarrow> bool" where
  "stepKeeps s s' =
     (prefix (store_of s) (store_of s') \<and>
      (nextView s < length (store_of s) \<longrightarrow> nextView s' < length (store_of s')) \<and>
      nextView s \<le> nextView s' \<and>
      query (currentView s') = query (currentView s) \<and>
      project (currentView s') = project (currentView s) \<and>
      environment (currentView s') = environment (currentView s) \<and>
      length (ev_fields (currentView s')) = length (ev_fields (currentView s)) \<and>
      prefix (fieldsToDelete s) (fieldsToDelete s') \<and>
      transformedFields s \<subseteq> transformedFields s')"


text \<open>
  The keys of the conditions that the callback of \<^verbatim>\<open>generateAdditionalConditions\<close>
  assigns to or deletes for a field and a row: none for an aggregate; for a bare field
  the key of its \<^verbatim>\<open>switch\<close> when the row has the attribute, and the keys of the tag
  check when the row has the tag.
\<close>

definition writtenKeys :: "externals \<Rightarrow> DataRow \<Rightarrow> Field \<Rightarrow> string list" where
  "writtenKeys X dataRow fld =
     (case explodeFieldString (field fld) of
        FunctionCol f args \<Rightarrow> []
      | FieldCol c \<Rightarrow>
          (case dataRow c of
             None \<Rightarrow> []
           | Some v \<Rightarrow>
               if c = ''user''
               then (case nextValue v of
                       Inl e \<Rightarrow> []
                     | Inr next \<Rightarrow> [fst (normalizeUserTag c next)])
               else [c]) @
          (case rowTags dataRow of
             None \<Rightarrow> []
           | Some tags \<Rightarrow>
               (case find (\<lambda>item. tag_key item = c) tags of
                  None \<Rightarrow> []
                | Some tag \<Rightarrow>
                    if c \<in> set (URL_PARAM X) then [''tags['' @ c @ '']'']
                    else if c = ''user''
                    then [''user'', fst (normalizeUserTag ''user'' (tag_value tag))]
                    else [c])))"

section \<open>Strings and the user tag\<close>

lemma split_acc_unfold:
  "split_acc sep acc s =
     (rev acc @ takeWhile (\<lambda>c. c \<noteq> sep) s) #
       (case dropWhile (\<lambda>c. c \<noteq> sep) s of [] \<Rightarrow> [] | c # r \<Rightarrow> split_acc sep [] r)"
  by (induction s arbitrary: acc) auto

lemma split_limit_two:
  "split_limit sep 2 s =
     (case dropWhile (\<lambda>c. c \<noteq> sep) s of
        [] \<Rightarrow> [s]
      | c # r \<Rightarrow> [takeWhile (\<lambda>c. c \<noteq> sep) s, takeWhile (\<lambda>c. c \<noteq> sep) r])"
proof (cases "dropWhile (\<lambda>c. c \<noteq> sep) s")
  case Nil
  then have all: "\<forall>x\<in>set s. x \<noteq> sep"
    by simp
  then have "takeWhile (\<lambda>c. c \<noteq> sep) s = s"
    by simp
  moreover have "split_acc sep [] s = takeWhile (\<lambda>c. c \<noteq> sep) s # []"
    by (subst split_acc_unfold) (simp only: Nil list.case rev.simps append_Nil)
  ultimately show ?thesis
    by (simp only: split_limit_def js_split_def Nil list.case) simp
next
  case (Cons c r)
  have "split_acc sep [] s = takeWhile (\<lambda>c. c \<noteq> sep) s # split_acc sep [] r"
    by (subst split_acc_unfold) (simp only: Cons list.case rev.simps append_Nil)
  moreover have "split_acc sep [] r = takeWhile (\<lambda>c. c \<noteq> sep) r #
      (case dropWhile (\<lambda>c. c \<noteq> sep) r of [] \<Rightarrow> [] | c # r' \<Rightarrow> split_acc sep [] r')"
    by (subst split_acc_unfold) (simp only: rev.simps append_Nil)
  ultimately show ?thesis
    by (simp only: split_limit_def js_split_def Cons list.case) (simp add: numeral_2_eq_2)
qed

lemma normalizeUserTag_no_colon:
  assumes "CHR '':'' \<notin> set val"
  shows "normalizeUserTag key val = (key, val)"
proof -
  have "dropWhile (\<lambda>c. c \<noteq> CHR '':'') val = []"
    using assms by auto
  then show ?thesis
    by (simp only: normalizeUserTag_def split_limit_two list.case Let_def) simp
qed

lemma normalizeUserTag_colon:
  assumes "CHR '':'' \<in> set val"
  shows "normalizeUserTag key val =
    (key @ ''.'' @ takeWhile (\<lambda>c. c \<noteq> CHR '':'') val,
     takeWhile (\<lambda>c. c \<noteq> CHR '':'') (tl (dropWhile (\<lambda>c. c \<noteq> CHR '':'') val)))"
proof -
  obtain c r where "dropWhile (\<lambda>c. c \<noteq> CHR '':'') val = c # r"
    using assms by (cases "dropWhile (\<lambda>c. c \<noteq> CHR '':'') val") auto
  then show ?thesis
    by (simp add: normalizeUserTag_def split_limit_two)
qed

lemma normalizeUserTag_key:
  "fst (normalizeUserTag key val) = key \<or> (\<exists>x. fst (normalizeUserTag key val) = key @ ''.'' @ x)"
  by (cases "CHR '':'' \<in> set val") (simp_all add: normalizeUserTag_no_colon normalizeUserTag_colon)

section \<open>CSV cells\<close>

lemma csvCell_user:
  assumes "getAggregateAlias X heading = ''user''"
  shows "csvCell X row heading =
     disableMacros X
       (case find truthy (map (rowGet row)
                [''user'', ''user.name'', ''user.email'', ''user.username'']) of
          Some v \<Rightarrow> v
        | None \<Rightarrow> rowGet row ''user.ip'')"
  using assms by (simp add: csvCell_def js_or_def)

lemma downloadAsCsv_cell:
  "i < length tableData \<Longrightarrow> j < length headings \<Longrightarrow>
   snd (downloadAsCsv X tableData headings) ! i ! j = csvCell X (tableData ! i) (headings ! j)"
  by (simp add: downloadAsCsv_def)

section \<open>Objects as association lists\<close>

lemma map_of_assign: "map_of (assign obj k v) = (map_of obj)(k \<mapsto> v)"
  by (induction obj) auto

lemma map_fst_assign:
  "map fst (assign obj k v) =
     (if k \<in> set (map fst obj) then map fst obj else map fst obj @ [k])"
  by (induction obj) (auto simp: rev_image_eqI)

lemma map_of_obj_set:
  "map_of (obj_set obj k v) =
     (if k = ''__proto__'' then map_of obj else (map_of obj)(k \<mapsto> v))"
  by (simp add: obj_set_def map_of_assign)

lemma distinct_obj_set:
  "distinct (map fst obj) \<Longrightarrow> distinct (map fst (obj_set obj k v))"
  by (simp add: obj_set_def map_fst_assign del: set_map)

lemma map_of_obj_delete: "map_of (obj_delete obj k) = (map_of obj)(k := None)"
  by (induction obj) (auto simp: obj_delete_def)

lemma distinct_obj_delete:
  "distinct (map fst obj) \<Longrightarrow> distinct (map fst (obj_delete obj k))"
  by (simp add: obj_delete_def distinct_map_filter)




section \<open>Loops that may throw\<close>

lemma foldlE_append:
  "foldlE f a (xs @ ys) = (case foldlE f a xs of Inl e \<Rightarrow> Inl e | Inr b \<Rightarrow> foldlE f b ys)"
  by (induction xs arbitrary: a) (simp_all split: sum.split)

lemma foldlE_returns:
  assumes "\<And>x a. x \<in> set xs \<Longrightarrow> \<exists>b. f a x = Inr b"
  shows "\<exists>r. foldlE f a xs = Inr r"
  using assms
proof (induction xs arbitrary: a)
  case Nil
  then show ?case by simp
next
  case (Cons x xs)
  from Cons.prems [of x a] obtain b where b: "f a x = Inr b"
    by auto
  from Cons.IH [of b] Cons.prems obtain r where "foldlE f b xs = Inr r"
    by auto
  with b show ?case by simp
qed

lemma foldlE_invariant:
  assumes "foldlE f a xs = Inr r"
    and "P a"
    and "\<And>x b c. x \<in> set xs \<Longrightarrow> P b \<Longrightarrow> f b x = Inr c \<Longrightarrow> P c"
  shows "P r"
  using assms
proof (induction xs arbitrary: a)
  case Nil
  then show ?case by simp
next
  case (Cons x xs)
  from Cons.prems(1) obtain b where b: "f a x = Inr b" and r: "foldlE f b xs = Inr r"
    by (auto split: sum.splits)
  have "P b"
    using Cons.prems(2,3) b by auto
  from Cons.IH [OF r this] Cons.prems(3) show ?case
    by auto
qed

section \<open>The store\<close>

lemma applyCondition_length:
  "length (fst (applyCondition a st kv)) = length (fst st)"
  by (simp add: applyCondition_def Let_def split: Column.split)

lemma applyCondition_other:
  "b \<noteq> a \<Longrightarrow> fst (applyCondition a st kv) ! b = fst st ! b"
  by (simp add: applyCondition_def Let_def split: Column.split)

lemma applyCondition_fields:
  "ev_fields (fst (applyCondition a st kv) ! a) = ev_fields (fst st ! a)"
  by (cases "a < length (fst st)")
    (simp_all add: applyCondition_def Let_def not_less list_update_beyond split: Column.split)


lemma foldl_applyCondition_length:
  "length (fst (foldl (applyCondition a) st conds)) = length (fst st)"
  by (induction conds arbitrary: st) (simp_all add: applyCondition_length)

lemma foldl_applyCondition_other:
  "b \<noteq> a \<Longrightarrow> fst (foldl (applyCondition a) st conds) ! b = fst st ! b"
  by (induction conds arbitrary: st) (simp_all add: applyCondition_other)

lemma foldl_applyCondition_fields:
  "ev_fields (fst (foldl (applyCondition a) st conds) ! a) = ev_fields (fst st ! a)"
  by (induction conds arbitrary: st) (simp_all add: applyCondition_fields)


section \<open>The conditions of a row\<close>

lemma attributeCondition_distinct:
  "distinct (map fst conditions) \<Longrightarrow>
   distinct (map fst (attributeCondition X conditions c k next))"
  by (simp add: attributeCondition_def Let_def distinct_obj_set)

lemma tagCondition_distinct:
  "distinct (map fst conditions) \<Longrightarrow>
   distinct (map fst (tagCondition X row conditions c k))"
  by (simp add: tagCondition_def Let_def distinct_obj_set distinct_obj_delete
      split: option.split)

lemma addCondition_distinct:
  "addCondition X row conditions fld = Inr conditions' \<Longrightarrow>
   distinct (map fst conditions) \<Longrightarrow> distinct (map fst conditions')"
  by (auto simp: addCondition_def Let_def attributeCondition_distinct tagCondition_distinct
      split: Column.splits sum.splits if_splits)

lemma generateAdditionalConditions_distinct:
  assumes "generateAdditionalConditions X v dataRow = Inr conds"
  shows "distinct (map fst conds)"
proof (cases dataRow)
  case None
  with assms show ?thesis
    by (simp add: generateAdditionalConditions_def)
next
  case (Some row)
  with assms have "foldlE (addCondition X row) [] (ev_fields v) = Inr conds"
    by (simp add: generateAdditionalConditions_def)
  then show ?thesis
    by (rule foldlE_invariant [where P = "\<lambda>c. distinct (map fst c)"])
      (simp_all add: addCondition_distinct)
qed


section \<open>The steps of the Field Transformer\<close>

lemma isTransformAggregate_empty: "\<not> isTransformAggregate ''''"
  by (simp add: isTransformAggregate_def transformAggregate_def isPercentile_def
      TRANSFORM_AGGREGATES_def)

lemma updateField_function:
  assumes "explodeFieldString (field (ev_fields (currentView s) ! i)) = FunctionCol f args"
  shows "updateField X s i =
    (if isTransformAggregate f then
       (if transformAggregate f \<in> transformedFields s then markDeleted s i
        else replaceColumn s i (transformAggregate f))
     else (case functionArg args of
             None \<Rightarrow> markDeleted s i
           | Some a \<Rightarrow>
               if a \<in> transformedFields s \<or> f = ''count'' \<or> a = ''id'' \<or> a = '''' \<or>
                  (case AGGREGATIONS X f of
                     None \<Rightarrow> False
                   | Some aggregate \<Rightarrow>
                       parameters aggregate \<noteq> [] \<and>
                       list_all (\<lambda>p. p \<noteq> ColumnParameter) (parameters aggregate))
               then markDeleted s i
               else replaceColumn s i a))"
proof -
  have e: "explodeFieldString (field (ev_fields (store_of s ! nextView s) ! i)) = FunctionCol f args"
    using assms by (simp add: currentView_def)
  show ?thesis
  proof (cases "isTransformAggregate f")
    case True
    then have "transformAggregate f \<noteq> ''''"
      by (simp add: isTransformAggregate_def)
    with True show ?thesis
      by (simp add: updateField_def e Let_def)
  next
    case False
    then show ?thesis
      by (simp add: updateField_def e Let_def isTransformAggregate_empty
          split: option.split)
  qed
qed

lemma updateField_shape:
  "updateField X s i = s \<or> updateField X s i = markDeleted s i \<or>
   (\<exists>n. updateField X s i = replaceColumn s i n)"
proof (cases "explodeFieldString (field (ev_fields (currentView s) ! i))")
  case (FieldCol n)
  then have "explodeFieldString (field (ev_fields (store_of s ! nextView s) ! i)) = FieldCol n"
    by (simp add: currentView_def)
  then show ?thesis
    by (auto simp: updateField_def Let_def)
next
  case (FunctionCol f args)
  show ?thesis
    by (auto simp: updateField_function [OF FunctionCol] split: option.split)
qed

lemma markDeleted_simps:
  "store_of (markDeleted s i) = store_of s"
  "nextView (markDeleted s i) = nextView s"
  "transformedFields (markDeleted s i) = transformedFields s"
  "fieldsToDelete (markDeleted s i) = fieldsToDelete s @ [i]"
  "currentView (markDeleted s i) = currentView s"
  by (simp_all add: markDeleted_def currentView_def)

lemma replaceColumn_simps:
  "store_of (replaceColumn s i n) =
     store_of s @ [(currentView s)\<lparr>ev_fields :=
        (ev_fields (currentView s))[i := \<lparr>field = n, width = None\<rparr>]\<rparr>]"
  "nextView (replaceColumn s i n) = length (store_of s)"
  "transformedFields (replaceColumn s i n) = insert n (transformedFields s)"
  "fieldsToDelete (replaceColumn s i n) = fieldsToDelete s"
  "currentView (replaceColumn s i n) =
     (currentView s)\<lparr>ev_fields := (ev_fields (currentView s))[i := \<lparr>field = n, width = None\<rparr>]\<rparr>"
  by (simp_all add: replaceColumn_def withUpdatedColumn_def alloc_def currentView_def)

lemma stepKeeps_refl: "stepKeeps s s"
  by (simp add: stepKeeps_def)

lemma stepKeeps_trans: "stepKeeps s s' \<Longrightarrow> stepKeeps s' s'' \<Longrightarrow> stepKeeps s s''"
  unfolding stepKeeps_def by (auto dest: prefix_order.trans)

lemma stepKeeps_markDeleted: "stepKeeps s (markDeleted s i)"
  by (simp add: stepKeeps_def markDeleted_simps)

lemma stepKeeps_replaceColumn:
  "nextView s < length (store_of s) \<Longrightarrow> stepKeeps s (replaceColumn s i n)"
  by (auto simp: stepKeeps_def replaceColumn_simps)

lemma stepKeeps_updateField:
  "nextView s < length (store_of s) \<Longrightarrow> stepKeeps s (updateField X s i)"
  using updateField_shape [of X s i]
  by (auto simp: stepKeeps_refl stepKeeps_markDeleted stepKeeps_replaceColumn)

lemma stepKeeps_valid:
  "stepKeeps s s' \<Longrightarrow> nextView s < length (store_of s) \<Longrightarrow> nextView s' < length (store_of s')"
  by (simp add: stepKeeps_def)

lemma stepKeeps_foldl:
  "nextView s < length (store_of s) \<Longrightarrow> stepKeeps s (foldl (updateField X) s todo)"
proof (induction todo arbitrary: s)
  case Nil
  then show ?case by (simp add: stepKeeps_refl)
next
  case (Cons i todo)
  have k: "stepKeeps s (updateField X s i)"
    using Cons.prems by (rule stepKeeps_updateField)
  then have "nextView (updateField X s i) < length (store_of (updateField X s i))"
    using Cons.prems by (rule stepKeeps_valid)
  then have "stepKeeps (updateField X s i) (foldl (updateField X) (updateField X s i) todo)"
    by (rule Cons.IH)
  with k show ?case
    by (simp add: stepKeeps_trans)
qed





text \<open>The initial state of the loop, after the clone.\<close>

lemma updateFields_unfold:
  "updateFields X h a =
     foldl (updateField X)
       \<lparr>store_of = h @ [h ! a], nextView = length h, transformedFields = {},
        fieldsToDelete = []\<rparr>
       (fieldsToUpdate (h ! a))"
  by (simp add: updateFields_def cloneState_def clone_def alloc_def)

lemma initial_simps:
  "currentView \<lparr>store_of = h @ [v], nextView = length h, transformedFields = tf,
     fieldsToDelete = ds\<rparr> = v"
  by (simp add: currentView_def)

lemma stepKeeps_updateFields:
  "stepKeeps \<lparr>store_of = h @ [h ! a], nextView = length h, transformedFields = {},
      fieldsToDelete = []\<rparr> (updateFields X h a)"
  unfolding updateFields_unfold by (rule stepKeeps_foldl) simp

section \<open>Deleting the marked columns\<close>

lemma foldl_withDeletedColumn:
  "b < length h \<Longrightarrow>
   (\<exists>ext. fst (foldl (\<lambda>(h, a) index. withDeletedColumn h a index) (h, b) ds) = h @ ext) \<and>
   snd (foldl (\<lambda>(h, a) index. withDeletedColumn h a index) (h, b) ds) <
     length (fst (foldl (\<lambda>(h, a) index. withDeletedColumn h a index) (h, b) ds)) \<and>
   b \<le> snd (foldl (\<lambda>(h, a) index. withDeletedColumn h a index) (h, b) ds) \<and>
   fst (foldl (\<lambda>(h, a) index. withDeletedColumn h a index) (h, b) ds) !
     snd (foldl (\<lambda>(h, a) index. withDeletedColumn h a index) (h, b) ds) =
       (h ! b)\<lparr>ev_fields := foldl (\<lambda>fs index. deleteAt index fs) (ev_fields (h ! b)) ds\<rparr>"
proof (induction ds arbitrary: h b)
  case Nil
  then show ?case by simp
next
  case (Cons d ds)
  let ?v = "(h ! b)\<lparr>ev_fields := deleteAt d (ev_fields (h ! b))\<rparr>"
  have step: "withDeletedColumn h b d = (h @ [?v], length h)"
    by (simp add: withDeletedColumn_def alloc_def)
  have "length h < length (h @ [?v])" by simp
  from Cons.IH [OF this] step Cons.prems show ?case
    by (auto simp: nth_append)
qed

section \<open>The view that getExpandedResults returns\<close>

lemma deleteFields_updateFields:
  assumes "a < length h"
  shows "\<exists>ext. fst (deleteFields (updateFields X h a)) = h @ ext"
    and "length h \<le> snd (deleteFields (updateFields X h a))"
    and "snd (deleteFields (updateFields X h a)) < length (fst (deleteFields (updateFields X h a)))"
    and "fst (deleteFields (updateFields X h a)) ! snd (deleteFields (updateFields X h a)) =
       (currentView (updateFields X h a))\<lparr>ev_fields :=
          foldl (\<lambda>fs index. deleteAt index fs) (ev_fields (currentView (updateFields X h a)))
            (rev (fieldsToDelete (updateFields X h a)))\<rparr>"
proof -
  let ?s = "updateFields X h a"
  let ?init = "\<lparr>store_of = h @ [h ! a], nextView = length h, transformedFields = {},
      fieldsToDelete = []\<rparr>"
  have k: "stepKeeps ?init ?s"
    by (rule stepKeeps_updateFields)
  then obtain ext where ext: "store_of ?s = (h @ [h ! a]) @ ext"
    by (auto simp: stepKeeps_def prefix_def)
  have valid: "nextView ?s < length (store_of ?s)"
    using k by (simp add: stepKeeps_def)
  have low: "length h \<le> nextView ?s"
    using k by (simp add: stepKeeps_def)
  note d = foldl_withDeletedColumn [OF valid, of "rev (fieldsToDelete ?s)"]
  from d obtain ext' where "fst (deleteFields ?s) = store_of ?s @ ext'"
    by (auto simp: deleteFields_def)
  with ext show "\<exists>ext. fst (deleteFields ?s) = h @ ext"
    by simp
  from d low show "length h \<le> snd (deleteFields ?s)"
    by (simp add: deleteFields_def)
  from d show "snd (deleteFields ?s) < length (fst (deleteFields ?s))"
    by (simp add: deleteFields_def)
  from d show "fst (deleteFields ?s) ! snd (deleteFields ?s) =
       (currentView ?s)\<lparr>ev_fields :=
          foldl (\<lambda>fs index. deleteAt index fs) (ev_fields (currentView ?s))
            (rev (fieldsToDelete ?s))\<rparr>"
    by (simp add: deleteFields_def currentView_def)
qed

lemma getExpandedResults_unfold:
  "getExpandedResults X h a conds row =
     (let h2 = fst (deleteFields (updateFields X h a));
          a2 = snd (deleteFields (updateFields X h a));
          r = generateExpandedConditions X h2 a2 conds row
      in case snd r of
           Inl e \<Rightarrow> (fst r, Inl e)
         | Inr q \<Rightarrow> ((fst r)[a2 := (fst r ! a2)\<lparr>query := q\<rparr>], Inr a2))"
  by (auto simp: getExpandedResults_def Let_def split: prod.split sum.split)

lemma generateExpandedConditions_length:
  "length (fst (generateExpandedConditions X h a conds row)) = length h"
  by (simp add: generateExpandedConditions_def Let_def foldl_applyCondition_length
      split: sum.split)

lemma generateExpandedConditions_other:
  "b \<noteq> a \<Longrightarrow> fst (generateExpandedConditions X h a conds row) ! b = h ! b"
  by (simp add: generateExpandedConditions_def Let_def foldl_applyCondition_other
      split: sum.split)

lemma generateExpandedConditions_fields:
  "ev_fields (fst (generateExpandedConditions X h a conds row) ! a) = ev_fields (h ! a)"
  by (simp add: generateExpandedConditions_def Let_def foldl_applyCondition_fields
      split: sum.split)

lemma getExpandedResults_frame:
  assumes "a < length h"
  shows "take (length h) (fst (getExpandedResults X h a conds row)) = h"
    and "snd (getExpandedResults X h a conds row) \<noteq> Inr a"
proof -
  let ?h2 = "fst (deleteFields (updateFields X h a))"
  let ?a2 = "snd (deleteFields (updateFields X h a))"
  let ?r = "generateExpandedConditions X ?h2 ?a2 conds row"
  let ?h' = "fst (getExpandedResults X h a conds row)"
  note d = deleteFields_updateFields [OF assms, of X]
  from d(1) obtain ext where ext: "?h2 = h @ ext" ..
  have len: "length ?h' = length ?h2"
    by (simp add: getExpandedResults_unfold Let_def generateExpandedConditions_length
        split: sum.split)
  have nth: "?h' ! b = h ! b" if "b < length h" for b
  proof -
    from that d(2) have ne: "b \<noteq> ?a2" by simp
    then have "?h' ! b = ?h2 ! b"
      by (simp add: getExpandedResults_unfold Let_def generateExpandedConditions_other
          split: sum.split)
    with that ext show ?thesis
      by (simp add: nth_append)
  qed
  have "length h \<le> length ?h'"
    using len ext by simp
  then show "take (length h) ?h' = h"
    by (intro nth_equalityI) (simp_all add: nth)
  show "snd (getExpandedResults X h a conds row) \<noteq> Inr a"
    using d(2) assms by (simp add: getExpandedResults_unfold Let_def split: sum.split)
qed

section \<open>Views without aggregates\<close>

lemma fieldsToUpdate_bare:
  assumes "list_all (\<lambda>f. \<not> isFunction (explodeFieldString (field f))) (ev_fields v)"
  shows "fieldsToUpdate v = []"
  using assms by (simp add: fieldsToUpdate_def filter_empty_conv list_all_length)

lemma updateFields_bare:
  assumes "list_all (\<lambda>f. \<not> isFunction (explodeFieldString (field f))) (ev_fields (h ! a))"
  shows "updateFields X h a =
     \<lparr>store_of = h @ [h ! a], nextView = length h, transformedFields = {},
      fieldsToDelete = []\<rparr>"
  by (simp add: updateFields_unfold fieldsToUpdate_bare [OF assms])

lemma forIn_empty: "forIn [] = []"
  by (simp add: forIn_def)

lemma generateExpandedConditions_empty:
  "generateExpandedConditions X h a [] None =
     (h, Inr (stringifyQueryObject X
           (filter (\<lambda>kv. \<not> isFunction (explodeFieldString (fst kv)))
              (tokenizeSearch X (query (h ! a))))))"
  by (simp add: generateExpandedConditions_def mergedConditions_def obj_assign_def
      generateAdditionalConditions_def forIn_empty)

lemma expandedView_bare:
  assumes "a < length h"
    and "list_all (\<lambda>f. \<not> isFunction (explodeFieldString (field f))) (ev_fields (h ! a))"
  shows "expandedView X h a [] None =
     Inr ((h ! a)\<lparr>query := stringifyQueryObject X
        (filter (\<lambda>kv. \<not> isFunction (explodeFieldString (fst kv)))
           (tokenizeSearch X (query (h ! a))))\<rparr>)"
proof -
  let ?s = "updateFields X h a"
  have s: "?s = \<lparr>store_of = h @ [h ! a], nextView = length h, transformedFields = {},
      fieldsToDelete = []\<rparr>"
    by (rule updateFields_bare [OF assms(2)])
  have cur: "currentView ?s = h ! a"
    by (simp add: s currentView_def)
  have del: "fieldsToDelete ?s = []"
    by (simp add: s)
  note d = deleteFields_updateFields [OF assms(1), of X]
  have v: "fst (deleteFields ?s) ! snd (deleteFields ?s) = h ! a"
    using d(4) by (simp only: cur del rev.simps foldl.simps) simp
  show ?thesis
    using d(3) v
    by (simp add: expandedView_def getExpandedResults_unfold Let_def
        generateExpandedConditions_empty)
qed

section \<open>The loop over the aggregate fields\<close>

lemma cloneState_simps:
  "store_of (cloneState h a) = h @ [h ! a]"
  "nextView (cloneState h a) = length h"
  "transformedFields (cloneState h a) = {}"
  "fieldsToDelete (cloneState h a) = []"
  "currentView (cloneState h a) = h ! a"
  by (simp_all add: cloneState_def clone_def alloc_def currentView_def)

lemma cloneState_valid: "nextView (cloneState h a) < length (store_of (cloneState h a))"
  by (simp add: cloneState_simps)








lemma foldl_updateField_sorted:
  "sorted_wrt (<) (fieldsToDelete s @ todo) \<Longrightarrow>
   sorted_wrt (<) (fieldsToDelete (foldl (updateField X) s todo))"
proof (induction todo arbitrary: s)
  case Nil
  then show ?case by simp
next
  case (Cons i todo)
  have "sorted_wrt (<) (fieldsToDelete (updateField X s i) @ todo)"
    using updateField_shape [of X s i] Cons.prems
    by (auto simp: markDeleted_simps replaceColumn_simps sorted_wrt_append)
  then show ?case
    using Cons.IH by simp
qed



section \<open>The Condition Generator\<close>

lemma explodeFieldString_FieldCol: "explodeFieldString f = FieldCol n \<Longrightarrow> n = f"
  by (simp add: explodeFieldString_def Let_def split: if_splits)

lemma getAggregateAlias_bare: "explodeFieldString f = FieldCol n \<Longrightarrow> getAggregateAlias X f = f"
  by (simp add: getAggregateAlias_def)

lemma String_returns: "v \<noteq> JObject None \<Longrightarrow> \<exists>s. String v = Inr s"
  by (cases v rule: String.cases) simp_all

lemma nextValue_returns: "v \<noteq> JObject None \<Longrightarrow> \<exists>s. nextValue v = Inr s"
  using String_returns [of v]
  by (auto simp: nextValue_def shouldQuote_def)


lemma addCondition_function:
  "explodeFieldString (field fld) = FunctionCol f args \<Longrightarrow>
   addCondition X row conds fld = Inr conds"
  by (simp add: addCondition_def)

text \<open>The callback on a bare field, for a row without the attribute and with it.\<close>

lemma addCondition_absent:
  assumes "explodeFieldString (field fld) = FieldCol c"
    and "row ''hasOwnProperty'' = None" and "row c = None"
  shows "addCondition X row conds fld = Inr (tagCondition X row conds c c)"
proof -
  have "getAggregateAlias X (field fld) = c"
    using assms(1) explodeFieldString_FieldCol [OF assms(1)] by (simp add: getAggregateAlias_bare)
  then show ?thesis
    using assms by (simp add: addCondition_def hasOwnProperty_def)
qed

lemma addCondition_present:
  assumes "explodeFieldString (field fld) = FieldCol c"
    and "row ''hasOwnProperty'' = None" and "row c = Some v"
  shows "addCondition X row conds fld =
     (case nextValue v of
        Inl e \<Rightarrow> Inl e
      | Inr next \<Rightarrow> Inr (tagCondition X row (attributeCondition X conds c c next) c c))"
proof -
  have "getAggregateAlias X (field fld) = c"
    using assms(1) explodeFieldString_FieldCol [OF assms(1)] by (simp add: getAggregateAlias_bare)
  then show ?thesis
    using assms by (simp add: addCondition_def hasOwnProperty_def rowGet_def split: sum.split)
qed

lemma addCondition_throws:
  "explodeFieldString (field fld) = FieldCol c \<Longrightarrow> row ''hasOwnProperty'' \<noteq> None \<Longrightarrow>
   addCondition X row conds fld = Inl TypeError"
  by (simp add: addCondition_def hasOwnProperty_def)

lemma addCondition_returns:
  assumes "row ''hasOwnProperty'' = None"
    and "isFunction (explodeFieldString (field fld)) \<or> row (field fld) \<noteq> Some (JObject None)"
  shows "\<exists>conds'. addCondition X row conds fld = Inr conds'"
proof (cases "explodeFieldString (field fld)")
  case (FunctionCol f args)
  then show ?thesis
    by (simp add: addCondition_function)
next
  case (FieldCol c)
  then have c: "c = field fld"
    by (rule explodeFieldString_FieldCol)
  show ?thesis
  proof (cases "row c")
    case None
    with FieldCol assms(1) show ?thesis
      by (simp add: addCondition_absent)
  next
    case (Some v)
    with assms(2) FieldCol c have "v \<noteq> JObject None"
      by auto
    then obtain s where "nextValue v = Inr s"
      using nextValue_returns by blast
    with FieldCol assms(1) Some show ?thesis
      by (simp add: addCondition_present)
  qed
qed

lemma addCondition_same_field:
  "field f = field g \<Longrightarrow> addCondition X row conds f = addCondition X row conds g"
  by (auto simp: addCondition_def split: Column.split)

text \<open>The two parts of the callback, on the conditions as a map.\<close>

lemma map_of_attributeCondition:
  "map_of (attributeCondition X conds c c next) k =
     (if c = ''user''
      then (if k = fst (normalizeUserTag c next) \<and> k \<noteq> ''__proto__''
            then Some (snd (normalizeUserTag c next)) else map_of conds k)
      else if k = c \<and> k \<noteq> ''__proto__''
      then Some (if c = ''timestamp'' then getUtcDateString X next else next)
      else map_of conds k)"
  by (simp add: attributeCondition_def Let_def map_of_obj_set)

lemma map_of_tagCondition:
  "map_of (tagCondition X row conds c c) k =
     (case rowTags row of
        None \<Rightarrow> map_of conds k
      | Some tags \<Rightarrow>
          (case find (\<lambda>item. tag_key item = c) tags of
             None \<Rightarrow> map_of conds k
           | Some tag \<Rightarrow>
               if c \<in> set (URL_PARAM X)
               then (if k = ''tags['' @ c @ '']'' then Some (tag_value tag) else map_of conds k)
               else if c = ''user''
               then (if k = fst (normalizeUserTag ''user'' (tag_value tag)) \<and> k \<noteq> ''__proto__''
                     then Some (snd (normalizeUserTag ''user'' (tag_value tag)))
                     else if k = ''user'' then None else map_of conds k)
               else if k = c \<and> k \<noteq> ''__proto__'' then Some (tag_value tag)
               else map_of conds k))"
  by (cases "rowTags row"; cases "c = ''user''")
    (auto simp: tagCondition_def Let_def map_of_obj_set map_of_obj_delete split: option.split)

text \<open>The callback leaves alone the keys that it does not write.\<close>

lemma tagCondition_keeps:
  assumes "k \<notin> set (case rowTags row of
             None \<Rightarrow> []
           | Some tags \<Rightarrow>
               (case find (\<lambda>item. tag_key item = c) tags of
                  None \<Rightarrow> []
                | Some tag \<Rightarrow>
                    if c \<in> set (URL_PARAM X) then [''tags['' @ c @ '']'']
                    else if c = ''user''
                    then [''user'', fst (normalizeUserTag ''user'' (tag_value tag))]
                    else [c]))"
  shows "map_of (tagCondition X row conds c c) k = map_of conds k"
proof (cases "rowTags row")
  case None
  then show ?thesis
    by (simp add: map_of_tagCondition)
next
  case (Some tags)
  show ?thesis
  proof (cases "find (\<lambda>item. tag_key item = c) tags")
    case None
    with Some show ?thesis
      by (simp add: map_of_tagCondition)
  next
    case (Some tag)
    with \<open>rowTags row = Some tags\<close> assms show ?thesis
      by (cases "c \<in> set (URL_PARAM X)"; cases "c = ''user''")
        (auto simp: map_of_tagCondition)
  qed
qed

lemma addCondition_keeps:
  assumes "addCondition X row conds fld = Inr conds'"
    and "k \<notin> set (writtenKeys X row fld)"
  shows "map_of conds' k = map_of conds k"
proof (cases "explodeFieldString (field fld)")
  case (FunctionCol f args)
  with assms(1) show ?thesis
    by (simp add: addCondition_function)
next
  case (FieldCol c)
  have own: "row ''hasOwnProperty'' = None"
    using assms(1) FieldCol by (cases "row ''hasOwnProperty''") (simp_all add: addCondition_throws)
  from assms(2) FieldCol
  have t: "map_of (tagCondition X row cs c c) k = map_of cs k" for cs
    by (intro tagCondition_keeps) (simp add: writtenKeys_def)
  show ?thesis
  proof (cases "row c")
    case None
    with assms(1) FieldCol own show ?thesis
      by (auto simp: addCondition_absent t)
  next
    case (Some v)
    with assms(1) FieldCol own obtain nv where n: "nextValue v = Inr nv"
      and c': "conds' = tagCondition X row (attributeCondition X conds c c nv) c c"
      by (auto simp: addCondition_present split: sum.splits)
    from assms(2) FieldCol Some n
    have "map_of (attributeCondition X conds c c nv) k = map_of conds k"
      by (cases "c = ''user''") (auto simp: writtenKeys_def map_of_attributeCondition)
    then show ?thesis
      by (simp add: c' t)
  qed
qed

lemma writtenKeys_user:
  assumes "field fld \<noteq> ''user''"
  shows "''user'' \<notin> set (writtenKeys X row fld)"
proof (cases "explodeFieldString (field fld)")
  case (FunctionCol f args)
  then show ?thesis
    by (simp add: writtenKeys_def)
next
  case (FieldCol c)
  then have "c = field fld"
    by (rule explodeFieldString_FieldCol)
  with assms have "c \<noteq> ''user''"
    by simp
  then show ?thesis
    using FieldCol by (simp add: writtenKeys_def split: option.split)
qed

text \<open>The condition of a key after the loop is the one that its last writer gives it.\<close>

lemma foldlE_addCondition_writer:
  assumes "foldlE (addCondition X row) init (pre @ fld # post) = Inr conds"
    and "\<And>c c'. addCondition X row c fld = Inr c' \<Longrightarrow> map_of c' k = r"
    and "list_all (\<lambda>f. field f = field fld \<or> k \<notin> set (writtenKeys X row f)) post"
  shows "map_of conds k = r"
proof -
  from assms(1) obtain c1 c2 where "foldlE (addCondition X row) init pre = Inr c1"
    and c2: "addCondition X row c1 fld = Inr c2"
    and rest: "foldlE (addCondition X row) c2 post = Inr conds"
    by (auto simp: foldlE_append split: sum.splits)
  have "map_of c2 k = r"
    using c2 by (rule assms(2))
  with rest show ?thesis
  proof (rule foldlE_invariant [where P = "\<lambda>c. map_of c k = r"])
    fix x b c
    assume x: "x \<in> set post" and b: "map_of b k = r" and c: "addCondition X row b x = Inr c"
    from x assms(3) have "field x = field fld \<or> k \<notin> set (writtenKeys X row x)"
      by (simp add: list_all_iff)
    then show "map_of c k = r"
    proof
      assume "field x = field fld"
      then have "addCondition X row b fld = Inr c"
        using c addCondition_same_field [of x fld X row b] by simp
      then show ?thesis
        by (rule assms(2))
    next
      assume "k \<notin> set (writtenKeys X row x)"
      with c b show ?thesis
        by (simp add: addCondition_keeps)
    qed
  qed
qed

lemma generateAdditionalConditions_returns:
  assumes "row ''hasOwnProperty'' = None"
    and "list_all (\<lambda>f. isFunction (explodeFieldString (field f)) \<or>
                       row (field f) \<noteq> Some (JObject None)) (ev_fields v)"
  shows "\<exists>conds. generateAdditionalConditions X v (Some row) = Inr conds"
proof -
  have "\<exists>r. foldlE (addCondition X row) [] (ev_fields v) = Inr r"
  proof (rule foldlE_returns)
    fix x a
    assume "x \<in> set (ev_fields v)"
    with assms(2) have "isFunction (explodeFieldString (field x)) \<or>
        row (field x) \<noteq> Some (JObject None)"
      by (simp add: list_all_iff)
    with assms(1) show "\<exists>b. addCondition X row a x = Inr b"
      by (rule addCondition_returns)
  qed
  then show ?thesis
    by (simp add: generateAdditionalConditions_def)
qed


section \<open>Parsing integers\<close>










section \<open>The claims\<close>

text \<open>
  Claim C4. For a bare \<open>user\<close> field whose value holds a colon, the claim splits the value
  at its first colon only, so that \<open>id:12:34\<close> yields the key \<open>user.id\<close> and the value
  \<open>12:34\<close>. The code calls \<^verbatim>\<open>value.split(':', 2)\<close>, which cuts the list of parts after
  the second: the value of the condition is the text between the first and the second
  colon, and the rest is lost.
\<close>

theorem normalizeUserTag_truncates:
  "normalizeUserTag ''user'' ''id:12:34'' = (''user.id'', ''12'')"
  by (simp add: normalizeUserTag_colon)

text \<open>
  Claim C10. In the CSV export, the cell of a column whose alias is \<open>user\<close> is the first
  truthy value among the row's \<open>user\<close>, \<open>user.name\<close>, \<open>user.email\<close>, \<open>user.username\<close> and
  \<open>user.ip\<close> attributes, in that order, passed through \<^verbatim>\<open>disableMacros\<close>; a row whose
  \<open>user\<close> is the empty string gives the same cell as the row without the attribute.
\<close>

theorem downloadAsCsv_user_column:
  assumes "i < length tableData" and "j < length headings"
    and "getAggregateAlias X (headings ! j) = ''user''"
  shows "(\<forall>v. find truthy (map (rowGet (tableData ! i))
               [''user'', ''user.name'', ''user.email'', ''user.username'', ''user.ip'']) = Some v
            \<longrightarrow> snd (downloadAsCsv X tableData headings) ! i ! j = disableMacros X v)
       \<and> ((tableData ! i) ''user'' = Some (JStr '''')
            \<longrightarrow> snd (downloadAsCsv X tableData headings) ! i ! j =
                snd (downloadAsCsv X (tableData[i := (tableData ! i)(''user'' := None)]) headings)
                  ! i ! j)"
proof (intro conjI allI impI)
  fix v
  assume "find truthy (map (rowGet (tableData ! i))
            [''user'', ''user.name'', ''user.email'', ''user.username'', ''user.ip'']) = Some v"
  then show "snd (downloadAsCsv X tableData headings) ! i ! j = disableMacros X v"
    using assms by (simp add: downloadAsCsv_cell csvCell_user split: if_splits)
next
  assume "(tableData ! i) ''user'' = Some (JStr '''')"
  then show "snd (downloadAsCsv X tableData headings) ! i ! j =
      snd (downloadAsCsv X (tableData[i := (tableData ! i)(''user'' := None)]) headings) ! i ! j"
    using assms by (simp add: downloadAsCsv_cell csvCell_user rowGet_def)
qed

theorem downloadAsCsv_user_column_witness:
  "(0::nat) < length [rowOf [(''user'', JStr ''''), (''user.email'', JStr ''a@b.c'')]]
   \<and> (0::nat) < length [''user'']
   \<and> getAggregateAlias sampleExternals ([''user''] ! 0) = ''user''
   \<and> find truthy (map (rowGet ([rowOf [(''user'', JStr ''''), (''user.email'', JStr ''a@b.c'')]] ! 0))
        [''user'', ''user.name'', ''user.email'', ''user.username'', ''user.ip''])
       = Some (JStr ''a@b.c'')
   \<and> snd (downloadAsCsv sampleExternals
             [rowOf [(''user'', JStr ''''), (''user.email'', JStr ''a@b.c'')]] [''user'']) ! 0 ! 0
       = JStr ''a@b.c''"
proof -
  let ?rows = "[rowOf [(''user'', JStr ''''), (''user.email'', JStr ''a@b.c'')]]"
  have h1: "(0::nat) < length ?rows" by simp
  have h2: "(0::nat) < length [''user'']" by simp
  have h3: "getAggregateAlias sampleExternals ([''user''] ! 0) = ''user''"
    by (simp add: getAggregateAlias_def explodeFieldString_def)
  have h4: "find truthy (map (rowGet (?rows ! 0))
        [''user'', ''user.name'', ''user.email'', ''user.username'', ''user.ip''])
       = Some (JStr ''a@b.c'')"
    by (simp add: rowGet_def rowOf_def)
  from downloadAsCsv_user_column [OF h1 h2 h3] h4
  have "snd (downloadAsCsv sampleExternals ?rows [''user'']) ! 0 ! 0
          = disableMacros sampleExternals (JStr ''a@b.c'')"
    by blast
  then have "snd (downloadAsCsv sampleExternals ?rows [''user'']) ! 0 ! 0 = JStr ''a@b.c''"
    by (simp add: sampleExternals_def)
  with h1 h2 h3 h4 show ?thesis by blast
qed

text \<open>
  Claim C9. A call of \<^verbatim>\<open>getExpandedResults\<close> leaves the view it is given as it was: its
  fields, filter string, project list and environment list are the same after the
  call. Every view that the store held before the call is unchanged, and the view
  returned is a new one: the clone, the updates and the deletions allocate, and the
  assignments of the assembly go to the view returned. This holds of a call that throws
  as well.
\<close>

theorem getExpandedResults_leaves_input:
  assumes "eventView < length h"
  shows "fst (getExpandedResults X h eventView additionalConditions dataRow) ! eventView
           = h ! eventView
       \<and> take (length h) (fst (getExpandedResults X h eventView additionalConditions dataRow)) = h
       \<and> snd (getExpandedResults X h eventView additionalConditions dataRow) \<noteq> Inr eventView"
proof -
  note f = getExpandedResults_frame [OF assms, of X additionalConditions dataRow]
  have "fst (getExpandedResults X h eventView additionalConditions dataRow) ! eventView =
      take (length h) (fst (getExpandedResults X h eventView additionalConditions dataRow))
        ! eventView"
    using assms by simp
  with f assms show ?thesis
    by simp
qed

theorem getExpandedResults_leaves_input_witness:
  "(0::nat) < length [viewOf [''title'', ''count()''] ''a:b'']
   \<and> fst (getExpandedResults sampleExternals [viewOf [''title'', ''count()''] ''a:b''] 0
          [(''project.id'', ''3''), (''environment'', ''prod'')] None) ! 0
       = [viewOf [''title'', ''count()''] ''a:b''] ! 0
   \<and> take (length [viewOf [''title'', ''count()''] ''a:b''])
         (fst (getExpandedResults sampleExternals [viewOf [''title'', ''count()''] ''a:b''] 0
            [(''project.id'', ''3''), (''environment'', ''prod'')] None))
       = [viewOf [''title'', ''count()''] ''a:b'']
   \<and> snd (getExpandedResults sampleExternals [viewOf [''title'', ''count()''] ''a:b''] 0
          [(''project.id'', ''3''), (''environment'', ''prod'')] None) \<noteq> Inr 0"
proof -
  have h1: "(0::nat) < length [viewOf [''title'', ''count()''] ''a:b'']"
    by simp
  from h1 getExpandedResults_leaves_input [OF h1, of sampleExternals
      "[(''project.id'', ''3''), (''environment'', ''prod'')]" None]
  show ?thesis
    by blast
qed

text \<open>
  Claim C2, as amended. For a view whose fields are all bare, a call with no caller
  conditions and no data row returns a new view with the same fields, projects and
  environments, whose filter string is the stringifier's rendering of the parsed
  filter without its aggregate-keyed entries. The filter string is therefore unchanged
  when it holds no aggregate-keyed condition and the stringifier renders its parse back
  to it. As stated, with an unchanged filter for every such view, the claim fails: the
  assembly deletes the aggregate-keyed entries of the filter whatever the fields are.
\<close>

theorem getExpandedResults_bare_fields:
  assumes "eventView < length h"
    and "list_all (\<lambda>f. \<not> isFunction (explodeFieldString (field f)))
           (ev_fields (h ! eventView))"
  shows "expandedView X h eventView [] None =
           Inr ((h ! eventView)\<lparr>query := stringifyQueryObject X
              (filter (\<lambda>kv. \<not> isFunction (explodeFieldString (fst kv)))
                 (tokenizeSearch X (query (h ! eventView))))\<rparr>)
       \<and> snd (getExpandedResults X h eventView [] None) \<noteq> Inr eventView
       \<and> (list_all (\<lambda>kv. \<not> isFunction (explodeFieldString (fst kv)))
             (tokenizeSearch X (query (h ! eventView))) \<and>
           stringifyQueryObject X (tokenizeSearch X (query (h ! eventView)))
             = query (h ! eventView)
           \<longrightarrow> expandedView X h eventView [] None = Inr (h ! eventView))"
proof -
  have v: "expandedView X h eventView [] None =
           Inr ((h ! eventView)\<lparr>query := stringifyQueryObject X
              (filter (\<lambda>kv. \<not> isFunction (explodeFieldString (fst kv)))
                 (tokenizeSearch X (query (h ! eventView))))\<rparr>)"
    using assms by (rule expandedView_bare)
  have "snd (getExpandedResults X h eventView [] None) \<noteq> Inr eventView"
    using assms(1) by (rule getExpandedResults_frame(2))
  moreover have "expandedView X h eventView [] None = Inr (h ! eventView)"
    if "list_all (\<lambda>kv. \<not> isFunction (explodeFieldString (fst kv)))
             (tokenizeSearch X (query (h ! eventView)))"
      and "stringifyQueryObject X (tokenizeSearch X (query (h ! eventView)))
             = query (h ! eventView)"
  proof -
    have "filter (\<lambda>kv. \<not> isFunction (explodeFieldString (fst kv)))
           (tokenizeSearch X (query (h ! eventView))) = tokenizeSearch X (query (h ! eventView))"
      using that(1) by (simp add: list_all_iff)
    with that(2) v show ?thesis by simp
  qed
  ultimately show ?thesis
    using v by blast
qed

theorem getExpandedResults_bare_fields_witness:
  "(0::nat) < length [viewOf [''title''] ''title:foo'']
   \<and> list_all (\<lambda>f. \<not> isFunction (explodeFieldString (field f)))
         (ev_fields ([viewOf [''title''] ''title:foo''] ! 0))
   \<and> list_all (\<lambda>kv. \<not> isFunction (explodeFieldString (fst kv)))
         (tokenizeSearch sampleExternals (query ([viewOf [''title''] ''title:foo''] ! 0)))
   \<and> stringifyQueryObject sampleExternals
         (tokenizeSearch sampleExternals (query ([viewOf [''title''] ''title:foo''] ! 0)))
       = query ([viewOf [''title''] ''title:foo''] ! 0)
   \<and> expandedView sampleExternals [viewOf [''title''] ''title:foo''] 0 [] None
       = Inr ([viewOf [''title''] ''title:foo''] ! 0)"
proof -
  let ?h = "[viewOf [''title''] ''title:foo'']"
  have tok: "sampleTokenizeSearch ''title:foo'' = [(''title'', [''foo''])]"
    by code_simp
  have h1: "(0::nat) < length ?h"
    by simp
  have h2: "list_all (\<lambda>f. \<not> isFunction (explodeFieldString (field f))) (ev_fields (?h ! 0))"
    by (simp add: viewOf_def explodeFieldString_def)
  have h3: "list_all (\<lambda>kv. \<not> isFunction (explodeFieldString (fst kv)))
         (tokenizeSearch sampleExternals (query (?h ! 0)))"
    by (simp add: viewOf_def sampleExternals_def tok explodeFieldString_def)
  have h4: "stringifyQueryObject sampleExternals
         (tokenizeSearch sampleExternals (query (?h ! 0))) = query (?h ! 0)"
    by (simp add: viewOf_def sampleExternals_def tok sampleStringifyQueryObject_def)
  from getExpandedResults_bare_fields [OF h1 h2, of sampleExternals] h3 h4
  have "expandedView sampleExternals ?h 0 [] None = Inr (?h ! 0)"
    by blast
  with h1 h2 h3 h4 show ?thesis
    by blast
qed

text \<open>
  The filter \<open>count():>5 title:foo\<close> of a view with the single bare field \<open>title\<close> loses
  its aggregate condition.
\<close>

theorem getExpandedResults_bare_fields_counterexample:
  "list_all (\<lambda>f. \<not> isFunction (explodeFieldString (field f)))
     (ev_fields ([viewOf [''title''] ''count():>5 title:foo''] ! 0))
   \<and> expandedView sampleExternals [viewOf [''title''] ''count():>5 title:foo''] 0 [] None
       = Inr (viewOf [''title''] ''title:foo'')
   \<and> query (viewOf [''title''] ''title:foo'')
       \<noteq> query ([viewOf [''title''] ''count():>5 title:foo''] ! 0)"
proof -
  have bare: "list_all (\<lambda>f. \<not> isFunction (explodeFieldString (field f)))
     (ev_fields ([viewOf [''title''] ''count():>5 title:foo''] ! 0))"
    by (simp add: viewOf_def explodeFieldString_def)
  have tok: "sampleTokenizeSearch ''count():>5 title:foo'' =
      [(''count()'', [''>5'']), (''title'', [''foo''])]"
    by code_simp
  have agg: "isFunction (explodeFieldString ''count()'')"
    by (simp add: explodeFieldString_def)
  have nonagg: "\<not> isFunction (explodeFieldString ''title'')"
    by (simp add: explodeFieldString_def)
  have "expandedView sampleExternals [viewOf [''title''] ''count():>5 title:foo''] 0 [] None
       = Inr (viewOf [''title''] ''title:foo'')"
    using bare
    by (simp add: expandedView_bare sampleExternals_def tok agg nonagg
        sampleStringifyQueryObject_def viewOf_def)
  with bare show ?thesis
    by (simp add: viewOf_def)
qed




text \<open>
  Claim C1. The claim is that the view returned holds no aggregate field, and the
  comment above \<^verbatim>\<open>getExpandedResults\<close> says the same (the function converts an aggregated
  query into one that does not have aggregates). The loop replaces an aggregate that is
  neither a count nor a transform aggregate by its first argument as it is written,
  without decoding it: the field \<open>min(count())\<close> becomes \<open>count()\<close>, which decodes to a
  function, and the view returned holds an aggregate.
\<close>

theorem getExpandedResults_keeps_aggregate:
  "expandedView sampleExternals [viewOf [''min(count())''] ''''] 0 [] None
     = Inr (viewOf [''count()''] '''')
   \<and> isFunction (explodeFieldString ''count()'')"
  by code_simp



text \<open>
  Claim C5, as amended. Take a bare field of the view whose key \<open>k\<close> is neither a reserved
  scoping parameter, nor \<open>user\<close>, nor \<open>__proto__\<close>, and a row that has an attribute under
  \<open>k\<close> and carries a tag with the key \<open>k\<close>. Let the row have no attribute named
  \<open>hasOwnProperty\<close> and no value that cannot be converted to a string under a bare field
  of the view, so that the generator returns; and let no field after this one, other
  than a repetition of it, write the key \<open>k\<close>. Then the generated condition for \<open>k\<close> is
  the value of the first tag of the row with that key: the callback assigns the
  attribute's value and then the tag's. As stated the claim fails: the conditions are
  one mapping written field by field, and a later \<open>user\<close> field writes its split value
  under a key \<open>user.\<close>\<^emph>\<open>sub\<close>; the assignment to \<open>__proto__\<close> creates no key; and the
  generator throws on a row with an attribute \<open>hasOwnProperty\<close>.
\<close>

theorem generateAdditionalConditions_tag_precedence:
  assumes "ev_fields eventView = pre @ fld # post"
    and "explodeFieldString (field fld) = FieldCol k"
    and "k \<notin> set (URL_PARAM X)" and "k \<noteq> ''user''" and "k \<noteq> ''__proto__''"
    and "dataRow ''hasOwnProperty'' = None"
    and "list_all (\<lambda>f. isFunction (explodeFieldString (field f)) \<or>
                       dataRow (field f) \<noteq> Some (JObject None)) (ev_fields eventView)"
    and "dataRow k = Some val"
    and "rowTags dataRow = Some tags"
    and "find (\<lambda>item. tag_key item = k) tags = Some tag"
    and "list_all (\<lambda>f. field f = k \<or> k \<notin> set (writtenKeys X dataRow f)) post"
  shows "\<exists>conds. generateAdditionalConditions X eventView (Some dataRow) = Inr conds \<and>
           obj_get conds k = Some (tag_value tag)"
proof -
  from assms(6,7) obtain conds
    where g: "generateAdditionalConditions X eventView (Some dataRow) = Inr conds"
    using generateAdditionalConditions_returns by blast
  then have loop: "foldlE (addCondition X dataRow) [] (pre @ fld # post) = Inr conds"
    by (simp add: generateAdditionalConditions_def assms(1))
  have k: "field fld = k"
    using explodeFieldString_FieldCol [OF assms(2)] by simp
  have "map_of conds k = Some (tag_value tag)"
    using loop
  proof (rule foldlE_addCondition_writer)
    fix c c'
    assume "addCondition X dataRow c fld = Inr c'"
    then obtain nv where "c' = tagCondition X dataRow (attributeCondition X c k k nv) k k"
      using assms(2,6,8) by (auto simp: addCondition_present split: sum.splits)
    then show "map_of c' k = Some (tag_value tag)"
      using assms(3,4,5,9,10) by (simp add: map_of_tagCondition)
  next
    show "list_all (\<lambda>f. field f = field fld \<or> k \<notin> set (writtenKeys X dataRow f)) post"
      using assms(11) by (simp add: k)
  qed
  with g show ?thesis
    by (simp add: obj_get_def)
qed

theorem generateAdditionalConditions_tag_precedence_witness:
  "ev_fields (viewOf [''user'', ''title'', ''count()'', ''release''] '''') =
     [\<lparr>field = ''user'', width = None\<rparr>] @ \<lparr>field = ''title'', width = None\<rparr> #
     [\<lparr>field = ''count()'', width = None\<rparr>, \<lparr>field = ''release'', width = None\<rparr>]
   \<and> explodeFieldString (field \<lparr>field = ''title'', width = None\<rparr>) = FieldCol ''title''
   \<and> ''title'' \<notin> set (URL_PARAM sampleExternals)
   \<and> ''title'' \<noteq> ''user'' \<and> ''title'' \<noteq> ''__proto__''
   \<and> rowOf [(''title'', JStr '' attr ''), (''release'', JStr ''r1''), (''user'', JStr ''id:7''),
             (''tags'', JTags [\<lparr>tag_key = ''title'', tag_value = ''tagged''\<rparr>,
                               \<lparr>tag_key = ''title'', tag_value = ''second''\<rparr>])]
        ''hasOwnProperty'' = None
   \<and> list_all (\<lambda>f. isFunction (explodeFieldString (field f)) \<or>
          rowOf [(''title'', JStr '' attr ''), (''release'', JStr ''r1''), (''user'', JStr ''id:7''),
                 (''tags'', JTags [\<lparr>tag_key = ''title'', tag_value = ''tagged''\<rparr>,
                                   \<lparr>tag_key = ''title'', tag_value = ''second''\<rparr>])]
            (field f) \<noteq> Some (JObject None))
        (ev_fields (viewOf [''user'', ''title'', ''count()'', ''release''] ''''))
   \<and> rowOf [(''title'', JStr '' attr ''), (''release'', JStr ''r1''), (''user'', JStr ''id:7''),
             (''tags'', JTags [\<lparr>tag_key = ''title'', tag_value = ''tagged''\<rparr>,
                               \<lparr>tag_key = ''title'', tag_value = ''second''\<rparr>])]
        ''title'' = Some (JStr '' attr '')
   \<and> rowTags (rowOf [(''title'', JStr '' attr ''), (''release'', JStr ''r1''),
             (''user'', JStr ''id:7''),
             (''tags'', JTags [\<lparr>tag_key = ''title'', tag_value = ''tagged''\<rparr>,
                               \<lparr>tag_key = ''title'', tag_value = ''second''\<rparr>])])
       = Some [\<lparr>tag_key = ''title'', tag_value = ''tagged''\<rparr>,
               \<lparr>tag_key = ''title'', tag_value = ''second''\<rparr>]
   \<and> find (\<lambda>item. tag_key item = ''title'')
         [\<lparr>tag_key = ''title'', tag_value = ''tagged''\<rparr>,
          \<lparr>tag_key = ''title'', tag_value = ''second''\<rparr>]
       = Some \<lparr>tag_key = ''title'', tag_value = ''tagged''\<rparr>
   \<and> list_all (\<lambda>f. field f = ''title'' \<or> ''title'' \<notin> set (writtenKeys sampleExternals
          (rowOf [(''title'', JStr '' attr ''), (''release'', JStr ''r1''), (''user'', JStr ''id:7''),
                  (''tags'', JTags [\<lparr>tag_key = ''title'', tag_value = ''tagged''\<rparr>,
                                    \<lparr>tag_key = ''title'', tag_value = ''second''\<rparr>])]) f))
        [\<lparr>field = ''count()'', width = None\<rparr>, \<lparr>field = ''release'', width = None\<rparr>]
   \<and> (\<exists>conds. generateAdditionalConditions sampleExternals
          (viewOf [''user'', ''title'', ''count()'', ''release''] '''')
          (Some (rowOf [(''title'', JStr '' attr ''), (''release'', JStr ''r1''),
             (''user'', JStr ''id:7''),
             (''tags'', JTags [\<lparr>tag_key = ''title'', tag_value = ''tagged''\<rparr>,
                               \<lparr>tag_key = ''title'', tag_value = ''second''\<rparr>])])) = Inr conds \<and>
        obj_get conds ''title'' = Some ''tagged'')
   \<and> generateAdditionalConditions sampleExternals
          (viewOf [''user'', ''title'', ''count()'', ''release''] '''')
          (Some (rowOf [(''title'', JStr '' attr ''), (''release'', JStr ''r1''),
             (''user'', JStr ''id:7''),
             (''tags'', JTags [\<lparr>tag_key = ''title'', tag_value = ''tagged''\<rparr>,
                               \<lparr>tag_key = ''title'', tag_value = ''second''\<rparr>])]))
       = Inr [(''user.id'', ''7''), (''title'', ''tagged''), (''release'', ''r1'')]"
proof -
  let ?v = "viewOf [''user'', ''title'', ''count()'', ''release''] ''''"
  let ?tags = "[\<lparr>tag_key = ''title'', tag_value = ''tagged''\<rparr>,
                \<lparr>tag_key = ''title'', tag_value = ''second''\<rparr>]"
  let ?row = "rowOf [(''title'', JStr '' attr ''), (''release'', JStr ''r1''),
                     (''user'', JStr ''id:7''), (''tags'', JTags ?tags)]"
  let ?fld = "\<lparr>field = ''title'', width = None\<rparr>"
  let ?post = "[\<lparr>field = ''count()'', width = None\<rparr>, \<lparr>field = ''release'', width = None\<rparr>]"
  have h1: "ev_fields ?v = [\<lparr>field = ''user'', width = None\<rparr>] @ ?fld # ?post"
    by (simp add: viewOf_def)
  have h2: "explodeFieldString (field ?fld) = FieldCol ''title''"
    by code_simp
  have h3: "''title'' \<notin> set (URL_PARAM sampleExternals)"
    by (simp add: sampleExternals_def)
  have h4: "''title'' \<noteq> ''user''" and h5: "''title'' \<noteq> ''__proto__''"
    by simp_all
  have h6: "?row ''hasOwnProperty'' = None"
    by (simp add: rowOf_def)
  have h7: "list_all (\<lambda>f. isFunction (explodeFieldString (field f)) \<or>
              ?row (field f) \<noteq> Some (JObject None)) (ev_fields ?v)"
    by (simp add: viewOf_def rowOf_def)
  have h8: "?row ''title'' = Some (JStr '' attr '')"
    by (simp add: rowOf_def)
  have h9: "rowTags ?row = Some ?tags"
    by (simp add: rowTags_def rowOf_def)
  have h10: "find (\<lambda>item. tag_key item = ''title'') ?tags =
      Some \<lparr>tag_key = ''title'', tag_value = ''tagged''\<rparr>"
    by simp
  have h11: "list_all (\<lambda>f. field f = ''title'' \<or>
      ''title'' \<notin> set (writtenKeys sampleExternals ?row f)) ?post"
    by code_simp
  have r: "\<exists>conds. generateAdditionalConditions sampleExternals ?v (Some ?row) = Inr conds \<and>
      obj_get conds ''title'' = Some ''tagged''"
    using generateAdditionalConditions_tag_precedence [OF h1 h2 h3 h4 h5 h6 h7 h8 h9 h10 h11]
    by simp
  have e: "generateAdditionalConditions sampleExternals ?v (Some ?row) =
      Inr [(''user.id'', ''7''), (''title'', ''tagged''), (''release'', ''r1'')]"
    by code_simp
  from h1 h2 h3 h4 h5 h6 h7 h8 h9 h10 h11 r e show ?thesis
    by (intro conjI)
qed

text \<open>
  The fields \<open>user.id\<close> and \<open>user\<close>, on a row with the attribute \<open>user.id\<close> and a tag
  \<open>user.id\<close>: the condition of \<open>user.id\<close> is neither, but the split value of the row's
  \<open>user\<close>. The field \<open>__proto__\<close> gets no condition at all, and a row with an attribute
  \<open>hasOwnProperty\<close>, or with a value that has no string under a bare field, makes the
  generator throw.
\<close>

theorem generateAdditionalConditions_tag_precedence_counterexample:
  "generateAdditionalConditions sampleExternals (viewOf [''user.id'', ''user''] '''')
     (Some (rowOf [(''user.id'', JStr ''attr''), (''user'', JStr ''id:5''),
                   (''tags'', JTags [\<lparr>tag_key = ''user.id'', tag_value = ''tagged''\<rparr>])]))
     = Inr [(''user.id'', ''5'')]
   \<and> generateAdditionalConditions sampleExternals (viewOf [''__proto__''] '''')
       (Some (rowOf [(''__proto__'', JStr ''attr''),
                     (''tags'', JTags [\<lparr>tag_key = ''__proto__'', tag_value = ''tagged''\<rparr>])]))
     = Inr []
   \<and> generateAdditionalConditions sampleExternals (viewOf [''title''] '''')
       (Some (rowOf [(''title'', JStr ''attr''), (''hasOwnProperty'', JStr ''x''),
                     (''tags'', JTags [\<lparr>tag_key = ''title'', tag_value = ''tagged''\<rparr>])]))
     = Inl TypeError
   \<and> generateAdditionalConditions sampleExternals (viewOf [''title'', ''extra''] '''')
       (Some (rowOf [(''title'', JStr ''attr''), (''extra'', JObject None),
                     (''tags'', JTags [\<lparr>tag_key = ''title'', tag_value = ''tagged''\<rparr>])]))
     = Inl TypeError"
  by code_simp




text \<open>
  Claim C7, as amended. Take a view with a bare \<open>user\<close> field and a row that has no
  \<open>user\<close> attribute and whose first tag with the key \<open>user\<close> has the value \<open>id:42\<close>, the
  name \<open>user\<close> not being a reserved scoping parameter. Let the row have no attribute
  named \<open>hasOwnProperty\<close> and no value that cannot be converted to a string under a bare
  field of the view, so that the generator returns; and let no field after the \<open>user\<close>
  field, other than a repetition of it, write the key \<open>user.id\<close>. Then the generated
  conditions hold \<open>42\<close> under \<open>user.id\<close> and nothing under \<open>user\<close>. As stated the claim
  fails: a \<open>user.id\<close> field that follows the \<open>user\<close> field writes the row's own value
  under \<open>user.id\<close>; \<^verbatim>\<open>findIndex\<close> takes the first tag with the key; a reserved \<open>user\<close>
  is written under \<open>tags[user]\<close>; and the generator throws on a row with an attribute
  \<open>hasOwnProperty\<close>.
\<close>

theorem generateAdditionalConditions_user_tag:
  assumes "ev_fields eventView = pre @ fld # post"
    and "field fld = ''user''"
    and "''user'' \<notin> set (URL_PARAM X)"
    and "dataRow ''hasOwnProperty'' = None"
    and "list_all (\<lambda>f. isFunction (explodeFieldString (field f)) \<or>
                       dataRow (field f) \<noteq> Some (JObject None)) (ev_fields eventView)"
    and "dataRow ''user'' = None"
    and "rowTags dataRow = Some tags"
    and "find (\<lambda>item. tag_key item = ''user'') tags =
           Some \<lparr>tag_key = ''user'', tag_value = ''id:42''\<rparr>"
    and "list_all (\<lambda>f. field f = ''user'' \<or> ''user.id'' \<notin> set (writtenKeys X dataRow f)) post"
  shows "\<exists>conds. generateAdditionalConditions X eventView (Some dataRow) = Inr conds \<and>
           obj_get conds ''user.id'' = Some ''42'' \<and> obj_get conds ''user'' = None"
proof -
  from assms(4,5) obtain conds
    where g: "generateAdditionalConditions X eventView (Some dataRow) = Inr conds"
    using generateAdditionalConditions_returns by blast
  then have loop: "foldlE (addCondition X dataRow) [] (pre @ fld # post) = Inr conds"
    by (simp add: generateAdditionalConditions_def assms(1))
  have n: "normalizeUserTag ''user'' ''id:42'' = (''user.id'', ''42'')"
    by (simp add: normalizeUserTag_colon)
  have step: "map_of c' key =
      (if key = ''user.id'' then Some ''42'' else if key = ''user'' then None else map_of c key)"
    if "field f = ''user''" and "addCondition X dataRow c f = Inr c'" for f c c' key
  proof -
    have "explodeFieldString (field f) = FieldCol ''user''"
      by (simp add: that(1) explodeFieldString_def)
    with that(2) assms(4,6) have "c' = tagCondition X dataRow c ''user'' ''user''"
      by (simp add: addCondition_absent)
    then show ?thesis
      using assms(3,7,8) by (simp add: map_of_tagCondition n)
  qed
  have id: "map_of conds ''user.id'' = Some ''42''"
    using loop
  proof (rule foldlE_addCondition_writer)
    fix c c'
    assume "addCondition X dataRow c fld = Inr c'"
    with assms(2) show "map_of c' ''user.id'' = Some ''42''"
      by (simp add: step)
  next
    show "list_all (\<lambda>f. field f = field fld \<or>
        ''user.id'' \<notin> set (writtenKeys X dataRow f)) post"
      using assms(9) by (simp add: assms(2))
  qed
  have "map_of conds ''user'' = None"
    using loop
  proof (rule foldlE_invariant [where P = "\<lambda>c. map_of c ''user'' = None"])
    show "map_of [] ''user'' = None"
      by simp
  next
    fix x b c
    assume b: "map_of b ''user'' = None" and c: "addCondition X dataRow b x = Inr c"
    show "map_of c ''user'' = None"
    proof (cases "field x = ''user''")
      case True
      with c show ?thesis
        by (simp add: step)
    next
      case False
      then have "''user'' \<notin> set (writtenKeys X dataRow x)"
        by (rule writtenKeys_user)
      with c b show ?thesis
        by (simp add: addCondition_keeps)
    qed
  qed
  with g id show ?thesis
    by (simp add: obj_get_def)
qed

theorem generateAdditionalConditions_user_tag_witness:
  "ev_fields (viewOf [''title'', ''user'', ''user.email''] '''') =
     [\<lparr>field = ''title'', width = None\<rparr>] @ \<lparr>field = ''user'', width = None\<rparr> #
     [\<lparr>field = ''user.email'', width = None\<rparr>]
   \<and> field \<lparr>field = ''user'', width = None\<rparr> = ''user''
   \<and> ''user'' \<notin> set (URL_PARAM sampleExternals)
   \<and> rowOf [(''title'', JStr ''x''), (''user.email'', JStr ''a@b.c''),
             (''tags'', JTags [\<lparr>tag_key = ''user'', tag_value = ''id:42''\<rparr>,
                               \<lparr>tag_key = ''user'', tag_value = ''id:7''\<rparr>])]
        ''hasOwnProperty'' = None
   \<and> list_all (\<lambda>f. isFunction (explodeFieldString (field f)) \<or>
          rowOf [(''title'', JStr ''x''), (''user.email'', JStr ''a@b.c''),
                 (''tags'', JTags [\<lparr>tag_key = ''user'', tag_value = ''id:42''\<rparr>,
                                   \<lparr>tag_key = ''user'', tag_value = ''id:7''\<rparr>])]
            (field f) \<noteq> Some (JObject None))
        (ev_fields (viewOf [''title'', ''user'', ''user.email''] ''''))
   \<and> rowOf [(''title'', JStr ''x''), (''user.email'', JStr ''a@b.c''),
             (''tags'', JTags [\<lparr>tag_key = ''user'', tag_value = ''id:42''\<rparr>,
                               \<lparr>tag_key = ''user'', tag_value = ''id:7''\<rparr>])]
        ''user'' = None
   \<and> rowTags (rowOf [(''title'', JStr ''x''), (''user.email'', JStr ''a@b.c''),
             (''tags'', JTags [\<lparr>tag_key = ''user'', tag_value = ''id:42''\<rparr>,
                               \<lparr>tag_key = ''user'', tag_value = ''id:7''\<rparr>])])
       = Some [\<lparr>tag_key = ''user'', tag_value = ''id:42''\<rparr>,
               \<lparr>tag_key = ''user'', tag_value = ''id:7''\<rparr>]
   \<and> find (\<lambda>item. tag_key item = ''user'')
         [\<lparr>tag_key = ''user'', tag_value = ''id:42''\<rparr>,
          \<lparr>tag_key = ''user'', tag_value = ''id:7''\<rparr>]
       = Some \<lparr>tag_key = ''user'', tag_value = ''id:42''\<rparr>
   \<and> list_all (\<lambda>f. field f = ''user'' \<or> ''user.id'' \<notin> set (writtenKeys sampleExternals
          (rowOf [(''title'', JStr ''x''), (''user.email'', JStr ''a@b.c''),
                  (''tags'', JTags [\<lparr>tag_key = ''user'', tag_value = ''id:42''\<rparr>,
                                    \<lparr>tag_key = ''user'', tag_value = ''id:7''\<rparr>])]) f))
        [\<lparr>field = ''user.email'', width = None\<rparr>]
   \<and> (\<exists>conds. generateAdditionalConditions sampleExternals
          (viewOf [''title'', ''user'', ''user.email''] '''')
          (Some (rowOf [(''title'', JStr ''x''), (''user.email'', JStr ''a@b.c''),
             (''tags'', JTags [\<lparr>tag_key = ''user'', tag_value = ''id:42''\<rparr>,
                               \<lparr>tag_key = ''user'', tag_value = ''id:7''\<rparr>])])) = Inr conds \<and>
        obj_get conds ''user.id'' = Some ''42'' \<and> obj_get conds ''user'' = None)
   \<and> generateAdditionalConditions sampleExternals
          (viewOf [''title'', ''user'', ''user.email''] '''')
          (Some (rowOf [(''title'', JStr ''x''), (''user.email'', JStr ''a@b.c''),
             (''tags'', JTags [\<lparr>tag_key = ''user'', tag_value = ''id:42''\<rparr>,
                               \<lparr>tag_key = ''user'', tag_value = ''id:7''\<rparr>])]))
       = Inr [(''title'', ''x''), (''user.id'', ''42''), (''user.email'', ''a@b.c'')]"
proof -
  let ?v = "viewOf [''title'', ''user'', ''user.email''] ''''"
  let ?tags = "[\<lparr>tag_key = ''user'', tag_value = ''id:42''\<rparr>,
                \<lparr>tag_key = ''user'', tag_value = ''id:7''\<rparr>]"
  let ?row = "rowOf [(''title'', JStr ''x''), (''user.email'', JStr ''a@b.c''),
                     (''tags'', JTags ?tags)]"
  let ?fld = "\<lparr>field = ''user'', width = None\<rparr>"
  let ?post = "[\<lparr>field = ''user.email'', width = None\<rparr>]"
  have h1: "ev_fields ?v = [\<lparr>field = ''title'', width = None\<rparr>] @ ?fld # ?post"
    by (simp add: viewOf_def)
  have h2: "field ?fld = ''user''"
    by simp
  have h3: "''user'' \<notin> set (URL_PARAM sampleExternals)"
    by (simp add: sampleExternals_def)
  have h4: "?row ''hasOwnProperty'' = None"
    by (simp add: rowOf_def)
  have h5: "list_all (\<lambda>f. isFunction (explodeFieldString (field f)) \<or>
              ?row (field f) \<noteq> Some (JObject None)) (ev_fields ?v)"
    by (simp add: viewOf_def rowOf_def)
  have h6: "?row ''user'' = None"
    by (simp add: rowOf_def)
  have h7: "rowTags ?row = Some ?tags"
    by (simp add: rowTags_def rowOf_def)
  have h8: "find (\<lambda>item. tag_key item = ''user'') ?tags =
      Some \<lparr>tag_key = ''user'', tag_value = ''id:42''\<rparr>"
    by simp
  have h9: "list_all (\<lambda>f. field f = ''user'' \<or>
      ''user.id'' \<notin> set (writtenKeys sampleExternals ?row f)) ?post"
    by code_simp
  note r = generateAdditionalConditions_user_tag [OF h1 h2 h3 h4 h5 h6 h7 h8 h9]
  have e: "generateAdditionalConditions sampleExternals ?v (Some ?row) =
      Inr [(''title'', ''x''), (''user.id'', ''42''), (''user.email'', ''a@b.c'')]"
    by code_simp
  from h1 h2 h3 h4 h5 h6 h7 h8 h9 r e show ?thesis
    by (intro conjI)
qed

text \<open>
  A \<open>user.id\<close> field after the \<open>user\<close> field, on a row with its own \<open>user.id\<close>, gives
  \<open>user.id\<close> the row's value. Of two \<open>user\<close> tags the first is taken. With \<open>user\<close> among
  the reserved parameters the tag is written under \<open>tags[user]\<close> as it is. A row with an
  attribute \<open>hasOwnProperty\<close>, or with a value that has no string under a bare field,
  makes the generator throw.
\<close>

theorem generateAdditionalConditions_user_tag_counterexample:
  "generateAdditionalConditions sampleExternals (viewOf [''user'', ''user.id''] '''')
     (Some (rowOf [(''user.id'', JNumber ''7''),
                   (''tags'', JTags [\<lparr>tag_key = ''user'', tag_value = ''id:42''\<rparr>])]))
     = Inr [(''user.id'', ''7'')]
   \<and> generateAdditionalConditions sampleExternals (viewOf [''user''] '''')
       (Some (rowOf [(''tags'', JTags [\<lparr>tag_key = ''user'', tag_value = ''id:1''\<rparr>,
                                       \<lparr>tag_key = ''user'', tag_value = ''id:42''\<rparr>])]))
     = Inr [(''user.id'', ''1'')]
   \<and> generateAdditionalConditions (sampleExternals\<lparr>URL_PARAM := [''user'']\<rparr>)
       (viewOf [''user''] '''')
       (Some (rowOf [(''tags'', JTags [\<lparr>tag_key = ''user'', tag_value = ''id:42''\<rparr>])]))
     = Inr [(''tags[user]'', ''id:42'')]
   \<and> generateAdditionalConditions sampleExternals (viewOf [''user''] '''')
       (Some (rowOf [(''hasOwnProperty'', JNumber ''1''),
                     (''tags'', JTags [\<lparr>tag_key = ''user'', tag_value = ''id:42''\<rparr>])]))
     = Inl TypeError
   \<and> generateAdditionalConditions sampleExternals (viewOf [''user'', ''device''] '''')
       (Some (rowOf [(''device'', JObject None),
                     (''tags'', JTags [\<lparr>tag_key = ''user'', tag_value = ''id:42''\<rparr>])]))
     = Inl TypeError"
  by code_simp

end
